theory Spec2Isabelle
  imports Main "HOL-Library.Sublist"
begin

section \<open>Text: characters, whitespace, splitting and joining\<close>

text \<open>
  Python strings are modelled as \<^typ>\<open>string\<close>; a \<^typ>\<open>char\<close> stands for the code point
  of the same number, so the model covers texts whose code points are below 256. All
  characters that the patterns of the two scripts name lie in that range.
\<close>

definition ord :: "char \<Rightarrow> nat" where
  "ord c = of_char c"

definition NL :: char where
  "NL = CHR 0x0A"

definition SEP :: char where
  "SEP = CHR ''/''"

text \<open>The character class \<^verbatim>\<open>[a-z0-9]\<close>.\<close>

definition lower_alnum :: "char \<Rightarrow> bool" where
  "lower_alnum c = ((97 \<le> ord c \<and> ord c \<le> 122) \<or> (48 \<le> ord c \<and> ord c \<le> 57))"

text \<open>The character class \<^verbatim>\<open>[a-z0-9-]\<close>.\<close>

definition lower_alnum_hyphen :: "char \<Rightarrow> bool" where
  "lower_alnum_hyphen c = (lower_alnum c \<or> c = CHR ''-'')"

text \<open>
  \<^verbatim>\<open>\s\<close> in a \<^verbatim>\<open>str\<close> pattern and the characters removed by \<^verbatim>\<open>str.strip()\<close>:
  those for which \<^verbatim>\<open>str.isspace\<close> holds (tab to carriage return, the four
  separators 0x1C to 0x1F, space, NEL and the no-break space).
\<close>

definition isspace :: "char \<Rightarrow> bool" where
  "isspace c = ((9 \<le> ord c \<and> ord c \<le> 13) \<or> (28 \<le> ord c \<and> ord c \<le> 32)
                 \<or> ord c = 133 \<or> ord c = 160)"

text \<open>The pattern \<^verbatim>\<open>.\<close> without the DOTALL flag: anything but a newline.\<close>

definition dot :: "char \<Rightarrow> bool" where
  "dot c = (c \<noteq> NL)"

definition strip :: "string \<Rightarrow> string" where
  "strip s = rev (dropWhile isspace (rev (dropWhile isspace s)))"

text \<open>\<^verbatim>\<open>s.split(sep)\<close> for a one-character separator: never returns the empty list.\<close>

fun split :: "char \<Rightarrow> string \<Rightarrow> string list" where
  "split sep [] = [[]]"
| "split sep (c # cs) =
     (if c = sep then [] # split sep cs
      else (case split sep cs of w # ws \<Rightarrow> (c # w) # ws | [] \<Rightarrow> [[c]]))"

text \<open>\<^verbatim>\<open>sep.join(words)\<close>.\<close>

fun join :: "string \<Rightarrow> string list \<Rightarrow> string" where
  "join sep [] = []"
| "join sep [w] = w"
| "join sep (w # ws) = w @ sep @ join sep ws"

section \<open>Regular expressions as the scripts use them\<close>

text \<open>
  The three patterns of the scripts are sequences of anchors, single characters,
  character classes and greedy repetitions of a character class. A pattern is a list of
  such items; matching returns the text consumed by each item, so that a group is read
  off by position. A greedy repetition first takes as many characters as it can and
  gives them back one at a time while the rest of the pattern fails, which is the order
  in which the backtracking matcher of \<^verbatim>\<open>re\<close> tries them.
\<close>

datatype atom =
    Bol
  | Eol
  | Chr char
  | Cls "char \<Rightarrow> bool"
  | Star "char \<Rightarrow> bool"
  | Plus "char \<Rightarrow> bool"

fun first_some :: "('a \<Rightarrow> 'b option) \<Rightarrow> 'a list \<Rightarrow> 'b option" where
  "first_some f [] = None"
| "first_some f (x # xs) = (case f x of Some y \<Rightarrow> Some y | None \<Rightarrow> first_some f xs)"

text \<open>
  \<^verbatim>\<open>^\<close> matches at the start of the text and, with MULTILINE, after every newline;
  \<^verbatim>\<open>$\<close> matches at the end of the text and before a newline that ends the text and,
  with MULTILINE, before every newline. The position is given by the character before
  it (\<open>None\<close> at the start) and the text after it.
\<close>

definition at_bol :: "bool \<Rightarrow> char option \<Rightarrow> bool" where
  "at_bol multiline prev = (prev = None \<or> (multiline \<and> prev = Some NL))"

definition at_eol :: "bool \<Rightarrow> string \<Rightarrow> bool" where
  "at_eol multiline s = (s = [] \<or> (if multiline then hd s = NL else s = [NL]))"

definition prev_after :: "char option \<Rightarrow> string \<Rightarrow> char option" where
  "prev_after prev taken = (if taken = [] then prev else Some (last taken))"

fun rx_seq :: "bool \<Rightarrow> atom list \<Rightarrow> char option \<Rightarrow> string \<Rightarrow> string list option" where
  "rx_seq ml [] prev s = Some []"
| "rx_seq ml (Bol # as) prev s =
     (if at_bol ml prev then map_option ((#) []) (rx_seq ml as prev s) else None)"
| "rx_seq ml (Eol # as) prev s =
     (if at_eol ml s then map_option ((#) []) (rx_seq ml as prev s) else None)"
| "rx_seq ml (Chr c # as) prev s =
     (case s of [] \<Rightarrow> None
      | x # xs \<Rightarrow> if x = c then map_option ((#) [x]) (rx_seq ml as (Some x) xs) else None)"
| "rx_seq ml (Cls P # as) prev s =
     (case s of [] \<Rightarrow> None
      | x # xs \<Rightarrow> if P x then map_option ((#) [x]) (rx_seq ml as (Some x) xs) else None)"
| "rx_seq ml (Star P # as) prev s =
     first_some
       (\<lambda>k. map_option ((#) (take k s)) (rx_seq ml as (prev_after prev (take k s)) (drop k s)))
       (rev [0 ..< Suc (length (takeWhile P s))])"
| "rx_seq ml (Plus P # as) prev s =
     first_some
       (\<lambda>k. map_option ((#) (take k s)) (rx_seq ml as (prev_after prev (take k s)) (drop k s)))
       (rev [1 ..< Suc (length (takeWhile P s))])"

text \<open>\<^verbatim>\<open>re.match(pattern, s)\<close> with no flags: a match starting at position 0.\<close>

definition re_match :: "atom list \<Rightarrow> string \<Rightarrow> string list option" where
  "re_match pat s = rx_seq False pat None s"

text \<open>
  \<^verbatim>\<open>re.search(pattern, s, re.MULTILINE)\<close>: the match at the leftmost position that has
  one.
\<close>

fun rx_search :: "atom list \<Rightarrow> char option \<Rightarrow> string \<Rightarrow> string list option" where
  "rx_search pat prev s =
     (case rx_seq True pat prev s of
        Some g \<Rightarrow> Some g
      | None \<Rightarrow> (case s of [] \<Rightarrow> None | x # xs \<Rightarrow> rx_search pat (Some x) xs))"

definition re_search_multiline :: "atom list \<Rightarrow> string \<Rightarrow> string list option" where
  "re_search_multiline pat s = rx_search pat None s"

text \<open>The pattern \<^verbatim>\<open>^[a-z0-9][a-z0-9-]*[a-z0-9]$\<close>, written twice in the source.\<close>

definition NAME_PATTERN :: "atom list" where
  "NAME_PATTERN = [Bol, Cls lower_alnum, Star lower_alnum_hyphen, Cls lower_alnum, Eol]"

definition name_rule :: "string \<Rightarrow> bool" where
  "name_rule s = (re_match NAME_PATTERN s \<noteq> None)"

text \<open>
  The patterns \<^verbatim>\<open>^name:\s*(.+)$\<close> and \<^verbatim>\<open>^description:\s*(.+)$\<close>; the text of
  group 1 is the one consumed by the item before the last.
\<close>

definition field_pattern :: "string \<Rightarrow> atom list" where
  "field_pattern key = [Bol] @ map Chr key @ [Chr CHR '':'', Star isspace, Plus dot, Eol]"

definition field_search :: "string \<Rightarrow> string \<Rightarrow> string option" where
  "field_search key content =
     map_option (\<lambda>g. g ! (length key + 3)) (re_search_multiline (field_pattern key) content)"

section \<open>Path names as text: \<^verbatim>\<open>os.path\<close>\<close>

text \<open>
  \<^verbatim>\<open>posixpath.normpath\<close>: the empty path is \<^verbatim>\<open>.\<close>; one leading slash is kept, two are
  kept as two, three or more become one; empty and \<^verbatim>\<open>.\<close> components are dropped and
  \<^verbatim>\<open>..\<close> removes the component before it where there is one to remove.
\<close>

definition initial_slashes :: "string \<Rightarrow> nat" where
  "initial_slashes p =
     (if \<not> prefix [SEP] p then 0
      else if prefix [SEP, SEP] p \<and> \<not> prefix [SEP, SEP, SEP] p then 2
      else 1)"

definition norm_step :: "nat \<Rightarrow> string list \<Rightarrow> string \<Rightarrow> string list" where
  "norm_step init new_comps part =
     (if part = [] \<or> part = ''.'' then new_comps
      else if part \<noteq> ''..'' \<or> (init = 0 \<and> new_comps = [])
                \<or> (new_comps \<noteq> [] \<and> last new_comps = ''..'')
        then new_comps @ [part]
      else if new_comps \<noteq> [] then butlast new_comps
      else new_comps)"

definition normpath :: "string \<Rightarrow> string" where
  "normpath p =
     (if p = [] then ''.''
      else
        let init = initial_slashes p;
            comps = foldl (norm_step init) [] (split SEP p);
            q = replicate init SEP @ join [SEP] comps
        in if q = [] then ''.'' else q)"

text \<open>\<^verbatim>\<open>posixpath.basename\<close>: the text after the last slash.\<close>

definition basename :: "string \<Rightarrow> string" where
  "basename p = rev (takeWhile (\<lambda>c. c \<noteq> SEP) (rev p))"

text \<open>\<^verbatim>\<open>posixpath.join\<close> with two arguments.\<close>

definition path_join :: "string \<Rightarrow> string \<Rightarrow> string" where
  "path_join a b =
     (if prefix [SEP] b then b
      else if a = [] \<or> last a = SEP then a @ b
      else a @ [SEP] @ b)"

section \<open>The file system\<close>

text \<open>
  A file system maps the absolute location of an object, the list of names from the
  root down to it, to a directory or a regular file. A file holds text, or bytes that
  the locale's encoding does not decode, and is executable or not. The root is always a
  directory. Symbolic links, permissions and I/O failures are outside the model: an
  operation fails exactly where the directory structure makes it fail.
\<close>

datatype content = Text string | Undecodable

datatype node = Dir | File content bool

type_synonym path = "string list"

type_synonym fs = "path \<rightharpoonup> node"

datatype exn =
    FileNotFoundError
  | FileExistsError
  | NotADirectoryError
  | IsADirectoryError
  | UnicodeDecodeError

definition node_at :: "fs \<Rightarrow> path \<Rightarrow> node option" where
  "node_at fs p = (if p = [] then Some Dir else fs p)"

text \<open>
  Resolution of a path name by the system, one component after the other: each
  component is looked up in a directory, \<^verbatim>\<open>.\<close> stays, \<^verbatim>\<open>..\<close> goes to the parent, and
  a slash at the end asks for a directory. The empty name resolves to nothing. A path
  name given on a command line holds no NUL character, and the model gives that
  character no special meaning.

  The system refuses a path name whose text, in the encoding of file names (UTF-8: one
  byte for a code point below 128, two for the others of the model), does not fit in
  \<^verbatim>\<open>PATH_MAX\<close> bytes with its terminator: \<^verbatim>\<open>os.stat\<close> then fails with
  \<^verbatim>\<open>ENAMETOOLONG\<close>, and \<^verbatim>\<open>os.path.exists\<close> and \<^verbatim>\<open>os.path.isdir\<close> answer
  \<^verbatim>\<open>False\<close>. The limit is the one of Linux, 4096. The limit on the length of one
  component depends on the file system that holds it: it restricts the nodes that a
  file system can hold, not the resolution of a name.
\<close>

definition PATH_MAX :: nat where
  "PATH_MAX = 4096"

definition fsencode_length :: "string \<Rightarrow> nat" where
  "fsencode_length s = length s + length (filter (\<lambda>c. 128 \<le> ord c) s)"

fun walk :: "fs \<Rightarrow> path \<Rightarrow> string list \<Rightarrow> path option" where
  "walk fs cur [] = Some cur"
| "walk fs cur (c # cs) =
     (if node_at fs cur \<noteq> Some Dir then None
      else walk fs (if c = ''.'' then cur else if c = ''..'' then butlast cur else cur @ [c]) cs)"

definition path_components :: "string \<Rightarrow> string list" where
  "path_components s =
     filter (\<lambda>w. w \<noteq> []) (split SEP s) @ (if s \<noteq> [] \<and> last s = SEP then [''.''] else [])"

definition os_stat :: "fs \<Rightarrow> path \<Rightarrow> string \<Rightarrow> node option" where
  "os_stat fs cwd s =
     (if s = [] \<or> PATH_MAX \<le> fsencode_length s then None
      else case walk fs (if hd s = SEP then [] else cwd) (path_components s) of
             None \<Rightarrow> None
           | Some p \<Rightarrow> node_at fs p)"

definition os_path_exists :: "fs \<Rightarrow> path \<Rightarrow> string \<Rightarrow> bool" where
  "os_path_exists fs cwd s = (os_stat fs cwd s \<noteq> None)"

definition os_path_isdir :: "fs \<Rightarrow> path \<Rightarrow> string \<Rightarrow> bool" where
  "os_path_isdir fs cwd s = (os_stat fs cwd s = Some Dir)"

text \<open>
  Reading in text mode translates \<^verbatim>\<open>\r\n\<close> and a lone \<^verbatim>\<open>\r\<close> to \<^verbatim>\<open>\n\<close>.
\<close>

fun universal_newlines :: "string \<Rightarrow> string" where
  "universal_newlines [] = []"
| "universal_newlines [c] = (if c = CHR 0x0D then [NL] else [c])"
| "universal_newlines (c # d # ds) =
     (if c = CHR 0x0D then
        (if d = NL then NL # universal_newlines ds else NL # universal_newlines (d # ds))
      else c # universal_newlines (d # ds))"

text \<open>\<^verbatim>\<open>with open(p, 'r') as f: content = f.read()\<close>.\<close>

definition read_text :: "fs \<Rightarrow> path \<Rightarrow> string \<Rightarrow> exn + string" where
  "read_text fs cwd s =
     (case os_stat fs cwd s of
        None \<Rightarrow> Inl FileNotFoundError
      | Some Dir \<Rightarrow> Inl IsADirectoryError
      | Some (File Undecodable x) \<Rightarrow> Inl UnicodeDecodeError
      | Some (File (Text t) x) \<Rightarrow> Inr (universal_newlines t))"

section \<open>The validator: \<^verbatim>\<open>validate_skill.py\<close>\<close>

record report =
  errors :: "string list"
  warnings :: "string list"

definition QUOTE :: char where
  "QUOTE = CHR 0x27"

definition MSG_NAMING :: string where
  "MSG_NAMING = ''Directory name violates regex (lowercase/hyphens only).''"

definition MSG_MISSING_ENTRY :: string where
  "MSG_MISSING_ENTRY = ''Missing SKILL.md (The mandatory entry point).''"

definition MSG_MISSING_NAME :: string where
  "MSG_MISSING_NAME =
     ''YAML frontmatter missing '' @ [QUOTE] @ ''name'' @ [QUOTE] @ '' field.''"

definition MSG_MISMATCH :: "string \<Rightarrow> string \<Rightarrow> string" where
  "MSG_MISMATCH declared skill_dir =
     ''YAML name '' @ [QUOTE] @ declared @ [QUOTE] @ '' mismatches directory ''
       @ [QUOTE] @ skill_dir @ [QUOTE] @ ''.''"

definition MSG_MISSING_DESCRIPTION :: string where
  "MSG_MISSING_DESCRIPTION =
     ''YAML frontmatter missing '' @ [QUOTE] @ ''description'' @ [QUOTE] @ '' field.''"

definition MSG_NO_REFERENCES :: string where
  "MSG_NO_REFERENCES =
     ''No '' @ [QUOTE] @ ''references/'' @ [QUOTE]
       @ '' directory found. (Acceptable for simple skills).''"

definition MSG_NO_SCRIPTS :: string where
  "MSG_NO_SCRIPTS =
     ''No '' @ [QUOTE] @ ''scripts/'' @ [QUOTE]
       @ '' directory found. (Acceptable for pure-prompt skills).''"

text \<open>
  Lines 7 to 45 of \<^verbatim>\<open>validate_skill\<close>: the checks. The result is the pair of lists
  \<^verbatim>\<open>errors\<close> and \<^verbatim>\<open>warnings\<close> as they stand before the final report, or the
  exception that reading the entry document raises; nothing in the function catches it.
\<close>

definition advisory_notes :: "fs \<Rightarrow> path \<Rightarrow> string \<Rightarrow> string list" where
  "advisory_notes fs cwd path =
     (let has_refs = os_path_isdir fs cwd (path_join path ''references'');
          has_scripts = os_path_isdir fs cwd (path_join path ''scripts'')
      in (if \<not> has_refs then [MSG_NO_REFERENCES] else [])
         @ (if \<not> has_scripts then [MSG_NO_SCRIPTS] else []))"

definition validate_skill :: "fs \<Rightarrow> path \<Rightarrow> string \<Rightarrow> exn + report" where
  "validate_skill fs cwd path =
     (let skill_dir = basename (normpath path);
          skill_md_path = path_join path ''SKILL.md'';
          errors1 = (if \<not> name_rule skill_dir then [MSG_NAMING] else []);
          errors2 = errors1 @ (if \<not> os_path_exists fs cwd skill_md_path
                               then [MSG_MISSING_ENTRY] else [])
      in if os_path_exists fs cwd skill_md_path then
           (case read_text fs cwd skill_md_path of
              Inl e \<Rightarrow> Inl e
            | Inr content \<Rightarrow>
                (let errors3 = errors2 @
                       (case field_search ''name'' content of
                          None \<Rightarrow> [MSG_MISSING_NAME]
                        | Some g \<Rightarrow>
                            if strip g \<noteq> skill_dir then [MSG_MISMATCH (strip g) skill_dir]
                            else []);
                     errors4 = errors3 @
                       (if field_search ''description'' content = None
                        then [MSG_MISSING_DESCRIPTION] else [])
                 in Inr \<lparr>errors = errors4, warnings = advisory_notes fs cwd path\<rparr>))
         else Inr \<lparr>errors = errors2, warnings = advisory_notes fs cwd path\<rparr>)"

text \<open>
  Lines 47 to 56: the final report. The lines written to standard output are kept by
  kind, without the decoration; the exit code is 1 from \<^verbatim>\<open>sys.exit(1)\<close> and 0 when
  the function returns.
\<close>

datatype out_line =
    Validating string
  | FailBanner
  | Critical string
  | PassBanner
  | InfoBanner
  | Note string

record process =
  stdout :: "out_line list"
  exit_code :: nat

definition final_report :: "report \<Rightarrow> process" where
  "final_report r =
     (if errors r \<noteq> [] then \<lparr>stdout = FailBanner # map Critical (errors r), exit_code = 1\<rparr>
      else \<lparr>stdout = PassBanner #
                (if warnings r \<noteq> [] then InfoBanner # map Note (warnings r) else []),
            exit_code = 0\<rparr>)"

text \<open>
  The script as a process: the line of line 12, then the checks and the report. An
  exception that nothing catches ends the interpreter with exit code 1 and a traceback
  on standard error.
\<close>

definition validator_main :: "fs \<Rightarrow> path \<Rightarrow> string \<Rightarrow> process" where
  "validator_main fs cwd path =
     (let header = Validating (basename (normpath path)) in
      case validate_skill fs cwd path of
        Inl e \<Rightarrow> \<lparr>stdout = [header], exit_code = 1\<rparr>
      | Inr r \<Rightarrow> \<lparr>stdout = header # stdout (final_report r),
                 exit_code = exit_code (final_report r)\<rparr>)"

section \<open>The scaffolder: \<^verbatim>\<open>scaffold_skill.py\<close>\<close>

subsection \<open>\<^verbatim>\<open>pathlib\<close> operations\<close>

text \<open>
  A \<^verbatim>\<open>Path\<close> of the scaffolder is absolute and is modelled by its list of names.
  Each operation returns the exception it raises, if any, and the file system it leaves.
\<close>

definition path_str :: "path \<Rightarrow> string" where
  "path_str p = SEP # join [SEP] p"

definition path_exists :: "fs \<Rightarrow> path \<Rightarrow> bool" where
  "path_exists fs p = (node_at fs p \<noteq> None)"

definition path_is_dir :: "fs \<Rightarrow> path \<Rightarrow> bool" where
  "path_is_dir fs p = (node_at fs p = Some Dir)"

definition os_mkdir :: "path \<Rightarrow> fs \<Rightarrow> exn option \<times> fs" where
  "os_mkdir p fs =
     (if p = [] then (Some FileExistsError, fs)
      else case node_at fs (butlast p) of
             None \<Rightarrow> (Some FileNotFoundError, fs)
           | Some (File c x) \<Rightarrow> (Some NotADirectoryError, fs)
           | Some Dir \<Rightarrow>
               if node_at fs p \<noteq> None then (Some FileExistsError, fs)
               else (None, fs(p \<mapsto> Dir)))"

text \<open>
  \<^verbatim>\<open>Path.mkdir(parents, exist_ok)\<close>: when the parent is missing and \<^verbatim>\<open>parents\<close> is
  set, the parent is made first (with \<^verbatim>\<open>exist_ok=True\<close>) and the directory after it;
  any other failure is forgiven only if \<^verbatim>\<open>exist_ok\<close> is set and the path is a
  directory.
\<close>

function path_mkdir :: "bool \<Rightarrow> bool \<Rightarrow> path \<Rightarrow> fs \<Rightarrow> exn option \<times> fs" where
  "path_mkdir parents exist_ok p fs =
     (case os_mkdir p fs of
        (None, fs') \<Rightarrow> (None, fs')
      | (Some e, fs') \<Rightarrow>
          if e = FileNotFoundError then
            (if \<not> parents \<or> p = [] then (Some e, fs')
             else case path_mkdir True True (butlast p) fs' of
                    (Some e1, fs1) \<Rightarrow> (Some e1, fs1)
                  | (None, fs1) \<Rightarrow> path_mkdir False exist_ok p fs1)
          else if \<not> exist_ok \<or> \<not> path_is_dir fs' p then (Some e, fs')
          else (None, fs'))"
  by pat_completeness auto
termination
  by (relation "measure (\<lambda>(parents, exist_ok, p, fs). 2 * length p + (if parents then 1 else 0))")
     auto

text \<open>\<^verbatim>\<open>Path.write_text(text)\<close>: creates the file, or replaces the text of an existing one.\<close>

definition path_write_text :: "path \<Rightarrow> string \<Rightarrow> fs \<Rightarrow> exn option \<times> fs" where
  "path_write_text p text fs =
     (if p = [] then (Some IsADirectoryError, fs)
      else case node_at fs (butlast p) of
             None \<Rightarrow> (Some FileNotFoundError, fs)
           | Some (File c x) \<Rightarrow> (Some NotADirectoryError, fs)
           | Some Dir \<Rightarrow>
               (case fs p of
                  Some Dir \<Rightarrow> (Some IsADirectoryError, fs)
                | Some (File c x) \<Rightarrow> (None, fs(p \<mapsto> File (Text text) x))
                | None \<Rightarrow> (None, fs(p \<mapsto> File (Text text) False))))"

text \<open>\<^verbatim>\<open>Path.chmod(0o755)\<close>: marks a file executable.\<close>

definition path_chmod_755 :: "path \<Rightarrow> fs \<Rightarrow> exn option \<times> fs" where
  "path_chmod_755 p fs =
     (case node_at fs p of
        None \<Rightarrow> (Some FileNotFoundError, fs)
      | Some Dir \<Rightarrow> (None, fs)
      | Some (File c x) \<Rightarrow> (None, fs(p \<mapsto> File c True)))"

text \<open>Statements in sequence: the first exception ends the sequence.\<close>

fun in_sequence :: "(fs \<Rightarrow> exn option \<times> fs) list \<Rightarrow> fs \<Rightarrow> exn option \<times> fs" where
  "in_sequence [] fs = (None, fs)"
| "in_sequence (stmt # stmts) fs =
     (case stmt fs of
        (Some e, fs') \<Rightarrow> (Some e, fs')
      | (None, fs') \<Rightarrow> in_sequence stmts fs')"


subsection \<open>Templates\<close>

text \<open>
  \<^verbatim>\<open>title_case_skill_name\<close>. \<^verbatim>\<open>str.capitalize\<close> is modelled on the ASCII letters,
  which is exact for every name that the scaffolder lets through to this point.
\<close>

definition upper_char :: "char \<Rightarrow> char" where
  "upper_char c = (if 97 \<le> ord c \<and> ord c \<le> 122 then char_of (ord c - 32) else c)"

definition lower_char :: "char \<Rightarrow> char" where
  "lower_char c = (if 65 \<le> ord c \<and> ord c \<le> 90 then char_of (ord c + 32) else c)"

definition capitalize :: "string \<Rightarrow> string" where
  "capitalize w = (case w of [] \<Rightarrow> [] | c # cs \<Rightarrow> upper_char c # map lower_char cs)"

definition title_case_skill_name :: "string \<Rightarrow> string" where
  "title_case_skill_name skill_name = join '' '' (map capitalize (split CHR ''-'' skill_name))"

text \<open>
  The static prose of the templates enters no check and holds characters beyond code
  point 255; it is a parameter of the model. \<open>md_guidance\<close> is the text of
  \<^verbatim>\<open>SKILL_MD_TEMPLATE\<close> between the title and the second occurrence of the name;
  the other three fields are the remaining templates, as functions of the text that is
  substituted into them.
\<close>

record templates =
  md_guidance :: string
  example_script :: "string \<Rightarrow> string"
  example_reference :: "string \<Rightarrow> string"
  assets_readme :: string

definition DESCRIPTION_LINE :: string where
  "DESCRIPTION_LINE = ''description: [TODO: Complete and informative explanation of what the skill does and when to use it. Include WHEN to use this skill - specific scenarios, file types, or tasks that trigger it.]''"

text \<open>\<^verbatim>\<open>SKILL_MD_TEMPLATE.format(skill_name=..., skill_title=...)\<close>.\<close>

definition skill_md_content :: "templates \<Rightarrow> string \<Rightarrow> string \<Rightarrow> string" where
  "skill_md_content tpl skill_name skill_title =
     ''---'' @ [NL] @ ''name: '' @ skill_name @ [NL] @ DESCRIPTION_LINE @ [NL]
       @ ''---'' @ [NL, NL] @ ''# '' @ skill_title @ md_guidance tpl @ skill_name
       @ ''`'' @ [NL] @ ''5. Test the skill with real use cases'' @ [NL]
       @ ''6. Iterate based on feedback'' @ [NL]"

subsection \<open>\<^verbatim>\<open>find_skills_dir\<close>\<close>

text \<open>
  \<open>git_toplevel\<close> is the directory that \<^verbatim>\<open>git rev-parse --show-toplevel\<close> prints,
  or \<open>None\<close> when that call raises one of the two exceptions the function catches;
  \<open>working_dir\<close> is \<^verbatim>\<open>Path.cwd()\<close>.
\<close>

record env =
  git_toplevel :: "path option"
  working_dir :: path

definition skills_dir_of :: "path \<Rightarrow> path" where
  "skills_dir_of p = p @ [''.github'', ''skills'']"

text \<open>\<^verbatim>\<open>[current, *current.parents]\<close>: the path and its ancestors up to the root.\<close>

definition with_parents :: "path \<Rightarrow> path list" where
  "with_parents p = map (\<lambda>k. take k p) (rev [0 ..< Suc (length p)])"

definition find_skills_dir :: "env \<Rightarrow> fs \<Rightarrow> path" where
  "find_skills_dir e fs =
     (case (case git_toplevel e of
              Some git_root \<Rightarrow>
                if path_exists fs (skills_dir_of git_root) then Some (skills_dir_of git_root)
                else None
            | None \<Rightarrow> None) of
        Some skills_dir \<Rightarrow> skills_dir
      | None \<Rightarrow>
          (case List.find (\<lambda>parent. path_exists fs (skills_dir_of parent))
                  (with_parents (working_dir e)) of
             Some parent \<Rightarrow> skills_dir_of parent
           | None \<Rightarrow> working_dir e))"

subsection \<open>\<^verbatim>\<open>scaffold_skill\<close>\<close>

text \<open>Every error ends the process through \<^verbatim>\<open>sys.exit(1)\<close>.\<close>

datatype scaffold_error =
    NamingViolation
  | AlreadyExists
  | CreateDirectoryFailed exn
  | CreateSkillMdFailed exn
  | CreateResourcesFailed exn

text \<open>Lines 391 to 409: the statements under the second \<^verbatim>\<open>try\<close>.\<close>

definition create_resources ::
  "templates \<Rightarrow> path \<Rightarrow> string \<Rightarrow> string \<Rightarrow> fs \<Rightarrow> exn option \<times> fs" where
  "create_resources tpl skill_path skill_name skill_title =
     (let scripts_dir = skill_path @ [''scripts''];
          example_script_path = scripts_dir @ [''example.py''];
          references_dir = skill_path @ [''references''];
          example_reference_path = references_dir @ [''example_reference.md''];
          assets_dir = skill_path @ [''assets''];
          assets_readme_path = assets_dir @ [''README.md'']
      in in_sequence
           [path_mkdir False True scripts_dir,
            path_write_text example_script_path (example_script tpl skill_name),
            path_chmod_755 example_script_path,
            path_mkdir False True references_dir,
            path_write_text example_reference_path (example_reference tpl skill_title),
            path_mkdir False True assets_dir,
            path_write_text assets_readme_path (assets_readme tpl)])"

text \<open>
  The function returns the path of the new package (the one it prints, and the one its
  last line tells the user to validate) or the error on which it exits, and the file
  system as it leaves it.
\<close>

definition scaffold_skill ::
  "templates \<Rightarrow> env \<Rightarrow> fs \<Rightarrow> string \<Rightarrow> bool \<Rightarrow> (scaffold_error + path) \<times> fs" where
  "scaffold_skill tpl e fs skill_name simple_mode =
     (if \<not> name_rule skill_name then (Inl NamingViolation, fs)
      else
        let skills_root = find_skills_dir e fs;
            skill_path = skills_root @ [skill_name]
        in if path_exists fs skill_path then (Inl AlreadyExists, fs)
           else case path_mkdir True False skill_path fs of
                  (Some ex, fs1) \<Rightarrow> (Inl (CreateDirectoryFailed ex), fs1)
                | (None, fs1) \<Rightarrow>
                    let skill_title = title_case_skill_name skill_name;
                        skill_content = skill_md_content tpl skill_name skill_title;
                        skill_md_path = skill_path @ [''SKILL.md'']
                    in case path_write_text skill_md_path skill_content fs1 of
                         (Some ex, fs2) \<Rightarrow> (Inl (CreateSkillMdFailed ex), fs2)
                       | (None, fs2) \<Rightarrow>
                           if \<not> simple_mode then
                             (case create_resources tpl skill_path skill_name skill_title fs2 of
                                (Some ex, fs3) \<Rightarrow> (Inl (CreateResourcesFailed ex), fs3)
                              | (None, fs3) \<Rightarrow> (Inr skill_path, fs3))
                           else (Inr skill_path, fs2))"

section \<open>The specification's words\<close>

text \<open>
  The naming law as the specification words it: only lowercase alphanumerics and
  hyphens, an alphanumeric first and last, at least two characters.
\<close>

definition spec_legal_identifier :: "string \<Rightarrow> bool" where
  "spec_legal_identifier s =
     (list_all lower_alnum_hyphen s \<and> 2 \<le> length s \<and> lower_alnum (hd s) \<and> lower_alnum (last s))"

section \<open>Example file systems\<close>

definition example_templates :: templates where
  "example_templates =
     \<lparr>md_guidance = [NL] @ ''## Overview'' @ [NL] @ ''4. Run validation: --path .github/skills/'',
      example_script = (\<lambda>skill_name. ''Example helper script for '' @ skill_name @ [NL]),
      example_reference = (\<lambda>skill_title. ''# Reference Documentation for '' @ skill_title @ [NL]),
      assets_readme = ''# Assets Directory'' @ [NL]\<rparr>"

text \<open>A repository \<^verbatim>\<open>/repo\<close> with a skills directory, seen from \<^verbatim>\<open>/repo/src\<close>.\<close>

definition repo_fs :: fs where
  "repo_fs =
     [[''repo''] \<mapsto> Dir,
      [''repo'', ''src''] \<mapsto> Dir,
      [''repo'', ''.github''] \<mapsto> Dir,
      [''repo'', ''.github'', ''skills''] \<mapsto> Dir]"

definition repo_env :: env where
  "repo_env = \<lparr>git_toplevel = Some [''repo''], working_dir = [''repo'', ''src'']\<rparr>"

text \<open>
  The directory \<^verbatim>\<open>/p\<close> with four packages: \<^verbatim>\<open>my-skill\<close>, whose entry document
  declares another name; \<^verbatim>\<open>empty-pkg\<close> and \<^verbatim>\<open>Bad\<close>, which have none;
  \<^verbatim>\<open>good-one\<close>, which is valid and has no subdirectory.
\<close>

definition packages_fs :: fs where
  "packages_fs =
     [[''p''] \<mapsto> Dir,
      [''p'', ''my-skill''] \<mapsto> Dir,
      [''p'', ''my-skill'', ''SKILL.md''] \<mapsto>
         File (Text (''---'' @ [NL] @ ''name: other-name'' @ [NL]
                     @ ''description: does things'' @ [NL] @ ''---'' @ [NL])) False,
      [''p'', ''empty-pkg''] \<mapsto> Dir,
      [''p'', ''Bad''] \<mapsto> Dir,
      [''p'', ''good-one''] \<mapsto> Dir,
      [''p'', ''good-one'', ''SKILL.md''] \<mapsto>
         File (Text (''---'' @ [NL] @ ''name: good-one'' @ [NL]
                     @ ''description: does things'' @ [NL] @ ''---'' @ [NL])) False]"

text \<open>
  Packages whose entry document does not do what the checks expect: in
  \<^verbatim>\<open>my-skill\<close> it declares another name and no description; in \<^verbatim>\<open>ok-name\<close> and in
  \<^verbatim>\<open>Bad\<close> it holds bytes that do not decode.
\<close>

definition broken_fs :: fs where
  "broken_fs =
     [[''p''] \<mapsto> Dir,
      [''p'', ''my-skill''] \<mapsto> Dir,
      [''p'', ''my-skill'', ''SKILL.md''] \<mapsto>
         File (Text (''---'' @ [NL] @ ''name: other-name'' @ [NL] @ ''---'' @ [NL])) False,
      [''p'', ''ok-name''] \<mapsto> Dir,
      [''p'', ''ok-name'', ''SKILL.md''] \<mapsto> File Undecodable False,
      [''p'', ''Bad''] \<mapsto> Dir,
      [''p'', ''Bad'', ''SKILL.md''] \<mapsto> File Undecodable False]"

section \<open>Auxiliary notions for the proofs\<close>

text \<open>The components that \<^verbatim>\<open>normpath\<close> keeps.\<close>

definition norm_comps :: "string \<Rightarrow> string list" where
  "norm_comps p = foldl (norm_step (initial_slashes p)) [] (split SEP p)"

text \<open>The path names nothing, or a file whose bytes decode.\<close>

definition readable_or_absent :: "fs \<Rightarrow> path \<Rightarrow> string \<Rightarrow> bool" where
  "readable_or_absent fs cwd s =
     (case os_stat fs cwd s of
        None \<Rightarrow> True
      | Some Dir \<Rightarrow> False
      | Some (File c x) \<Rightarrow> c \<noteq> Undecodable)"

text \<open>
  A name that a directory entry can have, and the file systems in which every object
  has such a name and lies in a directory.
\<close>

definition valid_name :: "string \<Rightarrow> bool" where
  "valid_name w = (w \<noteq> [] \<and> w \<noteq> ''.'' \<and> w \<noteq> ''..'' \<and> SEP \<notin> set w)"

definition wf_fs :: "fs \<Rightarrow> bool" where
  "wf_fs fs =
     (\<forall>p. fs p \<noteq> None \<longrightarrow> p \<noteq> [] \<and> valid_name (last p) \<and> node_at fs (butlast p) = Some Dir)"

text \<open>
  What a step of the scaffolder leaves alone: the object at a given path, and every
  directory.
\<close>

definition keeps :: "path \<Rightarrow> fs \<Rightarrow> fs \<Rightarrow> bool" where
  "keeps md fs fs' =
     (fs' md = fs md \<and> (\<forall>q. node_at fs q = Some Dir \<longrightarrow> node_at fs' q = Some Dir))"

text \<open>
  The last names of the paths that a call of \<^verbatim>\<open>scaffold_skill\<close> for the name \<open>n\<close> can
  create or change, when the skills directory exists.
\<close>

definition scaffold_names :: "string \<Rightarrow> string set" where
  "scaffold_names n =
     {n, ''SKILL.md'', ''scripts'', ''example.py'', ''references'', ''example_reference.md'',
      ''assets'', ''README.md''}"

text \<open>The second file system differs from the first only at paths that end in such a name.\<close>

definition changes_within :: "string set \<Rightarrow> fs \<Rightarrow> fs \<Rightarrow> bool" where
  "changes_within names fs fs' = (\<forall>q. fs' q \<noteq> fs q \<longrightarrow> q \<noteq> [] \<and> last q \<in> names)"

text \<open>
  A repository without a skills directory, seen from its \<^verbatim>\<open>.github\<close> directory, and
  no \<^verbatim>\<open>git\<close> to ask.
\<close>

definition bare_fs :: fs where
  "bare_fs = [[''repo''] \<mapsto> Dir, [''repo'', ''.github''] \<mapsto> Dir]"

definition bare_env :: env where
  "bare_env = \<lparr>git_toplevel = None, working_dir = [''repo'', ''.github'']\<rparr>"

section \<open>Evaluation\<close>

lemmas rx_eval =
  name_rule_def re_match_def NAME_PATTERN_def at_bol_def at_eol_def prev_after_def
  lower_alnum_def lower_alnum_hyphen_def isspace_def dot_def ord_def NL_def
  field_search_def field_pattern_def re_search_multiline_def

section \<open>The naming pattern\<close>

lemma first_some_eq_None: "first_some f xs = None \<longleftrightarrow> (\<forall>x \<in> set xs. f x = None)"
  by (induction xs) (auto split: option.splits)

lemma lower_alnum_not_NL: "lower_alnum c \<Longrightarrow> c \<noteq> NL"
  by (auto simp: lower_alnum_def ord_def NL_def)

lemma hyphen_not_NL: "lower_alnum_hyphen c \<Longrightarrow> c \<noteq> NL"
  by (auto simp: lower_alnum_hyphen_def lower_alnum_def ord_def NL_def)

lemma star_matches:
  "rx_seq ml (Star P # as) prev s \<noteq> None \<longleftrightarrow>
     (\<exists>k \<le> length (takeWhile P s). rx_seq ml as (prev_after prev (take k s)) (drop k s) \<noteq> None)"
proof -
  have "set (rev [0 ..< Suc (length (takeWhile P s))]) = {k. k \<le> length (takeWhile P s)}"
    by auto
  then show ?thesis
    unfolding rx_seq.simps first_some_eq_None by auto
qed

lemma plus_matches:
  "rx_seq ml (Plus P # as) prev s \<noteq> None \<longleftrightarrow>
     (\<exists>k. 1 \<le> k \<and> k \<le> length (takeWhile P s)
          \<and> rx_seq ml as (prev_after prev (take k s)) (drop k s) \<noteq> None)"
proof -
  have "set (rev [1 ..< Suc (length (takeWhile P s))]) = {k. 1 \<le> k \<and> k \<le> length (takeWhile P s)}"
    by auto
  then show ?thesis
    unfolding rx_seq.simps first_some_eq_None by auto
qed

lemma cls_eol_matches:
  "rx_seq ml [Cls P, Eol] pv u \<noteq> None \<longleftrightarrow> (\<exists>b t. u = b # t \<and> P b \<and> at_eol ml t)"
  by (cases u) auto

text \<open>What the anchored pattern accepts, with the repetition unfolded.\<close>

lemma name_rule_unfold:
  "name_rule s \<longleftrightarrow>
     (\<exists>a rest. s = a # rest \<and> lower_alnum a \<and>
        (\<exists>k \<le> length (takeWhile lower_alnum_hyphen rest).
           \<exists>b t. drop k rest = b # t \<and> lower_alnum b \<and> (t = [] \<or> t = [NL])))"
proof (cases s)
  case Nil
  then show ?thesis
    by (simp add: name_rule_def re_match_def NAME_PATTERN_def at_bol_def)
next
  case (Cons a rest)
  have "name_rule s \<longleftrightarrow> lower_alnum a \<and>
      rx_seq False [Star lower_alnum_hyphen, Cls lower_alnum, Eol] (Some a) rest \<noteq> None"
    unfolding name_rule_def re_match_def NAME_PATTERN_def Cons
    by (simp add: at_bol_def del: rx_seq.simps(6))
  then show ?thesis
    unfolding star_matches cls_eol_matches using Cons by (auto simp: at_eol_def)
qed

lemma spec_legal_shape:
  "spec_legal_identifier s \<longleftrightarrow>
     (\<exists>a mid b. s = a # mid @ [b] \<and> lower_alnum a \<and> lower_alnum b \<and> list_all lower_alnum_hyphen mid)"
proof
  assume L: "spec_legal_identifier s"
  then obtain a r where s: "s = a # r" and "r \<noteq> []"
    by (cases s) (auto simp: spec_legal_identifier_def Suc_le_eq)
  then obtain mid b where r: "r = mid @ [b]" by (metis rev_exhaust)
  show "\<exists>a mid b. s = a # mid @ [b] \<and> lower_alnum a \<and> lower_alnum b \<and> list_all lower_alnum_hyphen mid"
    using L s r by (auto simp: spec_legal_identifier_def)
next
  assume "\<exists>a mid b. s = a # mid @ [b] \<and> lower_alnum a \<and> lower_alnum b \<and> list_all lower_alnum_hyphen mid"
  then show "spec_legal_identifier s"
    by (auto simp: spec_legal_identifier_def lower_alnum_hyphen_def)
qed

lemma name_rule_iff:
  "name_rule s \<longleftrightarrow> spec_legal_identifier s \<or> (\<exists>t. s = t @ [NL] \<and> spec_legal_identifier t)"
proof
  assume "name_rule s"
  then obtain a rest k b t where s: "s = a # rest" and a: "lower_alnum a"
    and k: "k \<le> length (takeWhile lower_alnum_hyphen rest)"
    and d: "drop k rest = b # t" and b: "lower_alnum b" and t: "t = [] \<or> t = [NL]"
    unfolding name_rule_unfold by blast
  have mid: "list_all lower_alnum_hyphen (take k rest)"
  proof -
    have "take k rest = take k (takeWhile lower_alnum_hyphen rest @ dropWhile lower_alnum_hyphen rest)"
      by simp
    also have "\<dots> = take k (takeWhile lower_alnum_hyphen rest)"
      using k by (simp del: takeWhile_dropWhile_id)
    finally have "take k rest = take k (takeWhile lower_alnum_hyphen rest)" .
    then have "set (take k rest) \<subseteq> set (takeWhile lower_alnum_hyphen rest)"
      by (metis set_take_subset)
    then show ?thesis by (auto simp: list_all_iff dest: set_takeWhileD)
  qed
  have rest: "rest = take k rest @ b # t" using d by (metis append_take_drop_id)
  from t show "spec_legal_identifier s \<or> (\<exists>t. s = t @ [NL] \<and> spec_legal_identifier t)"
  proof
    assume "t = []"
    then have "s = a # take k rest @ [b]" using s rest by simp
    then show ?thesis using a b mid unfolding spec_legal_shape by blast
  next
    assume "t = [NL]"
    then have "s = (a # take k rest @ [b]) @ [NL]" using s rest by simp
    moreover have "spec_legal_identifier (a # take k rest @ [b])"
      using a b mid unfolding spec_legal_shape by blast
    ultimately show ?thesis by blast
  qed
next
  assume R: "spec_legal_identifier s \<or> (\<exists>t. s = t @ [NL] \<and> spec_legal_identifier t)"
  then obtain a mid b t where s: "s = a # mid @ b # t" and a: "lower_alnum a" and b: "lower_alnum b"
    and mid: "list_all lower_alnum_hyphen mid" and t: "t = [] \<or> t = [NL]"
    unfolding spec_legal_shape by auto
  have "takeWhile lower_alnum_hyphen (mid @ b # t) = mid @ takeWhile lower_alnum_hyphen (b # t)"
    using mid by (simp add: list_all_iff)
  then have "length mid \<le> length (takeWhile lower_alnum_hyphen (mid @ b # t))" by simp
  moreover have "drop (length mid) (mid @ b # t) = b # t" by simp
  ultimately show "name_rule s"
    unfolding name_rule_unfold using s a b t by blast
qed

subsection \<open>The metadata patterns on a document that starts like the template\<close>

lemma literal_matches:
  "rx_seq ml (map Chr key @ as) pv (key @ s)
     = map_option ((@) (map (\<lambda>c. [c]) key)) (rx_seq ml as (prev_after pv key) s)"
proof (induction key arbitrary: pv)
  case Nil
  then show ?case by (simp add: prev_after_def option.map_ident)
next
  case (Cons c key)
  show ?case
    by (simp add: Cons.IH prev_after_def option.map_comp comp_def)
qed

lemma take_length_takeWhile: "take (length (takeWhile P s)) s = takeWhile P s"
  by (metis append_eq_conv_conj takeWhile_dropWhile_id)

lemma drop_length_takeWhile: "drop (length (takeWhile P s)) s = dropWhile P s"
  by (metis append_eq_conv_conj takeWhile_dropWhile_id)

text \<open>A greedy repetition that succeeds with all it can take.\<close>

lemma star_greedy_first:
  assumes "rx_seq ml as (prev_after pv (takeWhile P s)) (dropWhile P s) = Some g"
  shows "rx_seq ml (Star P # as) pv s = Some (takeWhile P s # g)"
proof -
  have cand: "rev [0 ..< Suc (length (takeWhile P s))]
                = length (takeWhile P s) # rev [0 ..< length (takeWhile P s)]"
    by simp
  show ?thesis
    unfolding rx_seq.simps(6) cand first_some.simps take_length_takeWhile drop_length_takeWhile
    using assms by simp
qed

lemma plus_greedy_first:
  assumes "takeWhile P s \<noteq> []"
    and "rx_seq ml as (prev_after pv (takeWhile P s)) (dropWhile P s) = Some g"
  shows "rx_seq ml (Plus P # as) pv s = Some (takeWhile P s # g)"
proof -
  have "1 \<le> length (takeWhile P s)" using assms(1) by (simp add: Suc_le_eq)
  then have cand: "rev [1 ..< Suc (length (takeWhile P s))]
                = length (takeWhile P s) # rev [1 ..< length (takeWhile P s)]"
    by simp
  show ?thesis
    unfolding rx_seq.simps(7) cand first_some.simps take_length_takeWhile drop_length_takeWhile
    using assms(2) by simp
qed

lemma plus_dot_line:
  assumes "t \<noteq> []" and "NL \<notin> set t"
  shows "rx_seq True [Plus dot, Eol] pv (t @ NL # rest) = Some [t, []]"
proof -
  have all: "\<forall>c \<in> set t. dot c" using assms(2) by (auto simp: dot_def)
  have tw: "takeWhile dot (t @ NL # rest) = t"
    using all by (simp add: takeWhile_tail dot_def)
  have dw: "dropWhile dot (t @ NL # rest) = NL # rest"
    using all by (simp add: dropWhile_append2 dot_def)
  have "rx_seq True (Plus dot # [Eol]) pv (t @ NL # rest)
          = Some (takeWhile dot (t @ NL # rest) # [[]])"
    by (rule plus_greedy_first) (simp_all add: tw dw at_eol_def assms(1))
  then show ?thesis by (simp only: tw)
qed

lemma star_space_then_line:
  assumes "t \<noteq> []" and "NL \<notin> set t" and "\<not> isspace (hd t)"
  shows "rx_seq True [Star isspace, Plus dot, Eol] pv (CHR '' '' # t @ NL # rest)
           = Some ['' '', t, []]"
proof -
  have sp: "isspace CHR '' ''" by (simp add: isspace_def ord_def)
  have t: "takeWhile isspace (t @ NL # rest) = []" "dropWhile isspace (t @ NL # rest) = t @ NL # rest"
    using assms(1,3) by (cases t; simp)+
  have tw: "takeWhile isspace (CHR '' '' # t @ NL # rest) = '' ''"
    and dw: "dropWhile isspace (CHR '' '' # t @ NL # rest) = t @ NL # rest"
    using sp t by simp_all
  have "rx_seq True (Star isspace # [Plus dot, Eol]) pv (CHR '' '' # t @ NL # rest)
          = Some (takeWhile isspace (CHR '' '' # t @ NL # rest) # [t, []])"
    by (rule star_greedy_first) (simp only: tw dw plus_dot_line [OF assms(1,2)])
  then show ?thesis by (simp only: tw)
qed

lemma field_line_matches:
  assumes "t \<noteq> []" and "NL \<notin> set t" and "\<not> isspace (hd t)"
  shows "rx_seq True (field_pattern key) (Some NL) (key @ '': '' @ t @ NL # rest)
           = Some ([] # map (\<lambda>c. [c]) key @ ['':'', '' '', t, []])"
proof -
  have "rx_seq True (field_pattern key) (Some NL) (key @ '': '' @ t @ NL # rest)
          = map_option ((#) []) (rx_seq True (map Chr key @ [Chr CHR '':'', Star isspace, Plus dot, Eol])
              (Some NL) (key @ '': '' @ t @ NL # rest))"
    by (simp add: field_pattern_def at_bol_def)
  also have "\<dots> = Some ([] # map (\<lambda>c. [c]) key @ ['':'', '' '', t, []])"
    unfolding literal_matches
    using star_space_then_line [OF assms] by (simp del: rx_seq.simps(6,7))
  finally show ?thesis .
qed

lemma rx_search_found:
  "rx_seq True pat (prev_after pv a) s \<noteq> None \<Longrightarrow> rx_search pat pv (a @ s) \<noteq> None"
proof (induction a arbitrary: pv)
  case Nil
  then show ?case by (auto simp: prev_after_def split: option.splits)
next
  case (Cons c a)
  have "prev_after pv (c # a) = prev_after (Some c) a" by (simp add: prev_after_def)
  with Cons show ?case by (auto split: option.splits)
qed

lemma field_search_found:
  assumes "t \<noteq> []" and "NL \<notin> set t" and "\<not> isspace (hd t)"
  shows "field_search key (a @ NL # key @ '': '' @ t @ NL # rest) \<noteq> None"
proof -
  have "rx_seq True (field_pattern key) (prev_after None (a @ [NL])) (key @ '': '' @ t @ NL # rest)
          \<noteq> None"
    using field_line_matches [OF assms, of key rest] by (simp add: prev_after_def)
  then have "rx_search (field_pattern key) None ((a @ [NL]) @ key @ '': '' @ t @ NL # rest) \<noteq> None"
    by (rule rx_search_found)
  then show ?thesis by (simp add: field_search_def re_search_multiline_def)
qed

text \<open>The name field of a document that starts like the template.\<close>

lemma name_field_of_front_matter:
  assumes "t \<noteq> []" and "NL \<notin> set t" and "\<not> isspace (hd t)"
  shows "field_search ''name'' (''---'' @ [NL] @ ''name: '' @ t @ NL # rest) = Some t"
proof -
  have m: "rx_seq True (field_pattern ''name'') (Some NL) (''name: '' @ t @ NL # rest)
             = Some ([] # map (\<lambda>c. [c]) ''name'' @ ['':'', '' '', t, []])"
    using field_line_matches [OF assms, of "''name''" rest] by simp
  have no: "\<And>pv s. rx_seq True (field_pattern ''name'') pv (CHR ''-'' # s) = None"
    by (simp add: field_pattern_def)
  have no2: "\<And>s. rx_seq True (field_pattern ''name'') (Some CHR ''-'') s = None"
    by (simp add: field_pattern_def at_bol_def NL_def)
  have "rx_search (field_pattern ''name'') None (''---'' @ [NL] @ ''name: '' @ t @ NL # rest)
          = Some ([] # map (\<lambda>c. [c]) ''name'' @ ['':'', '' '', t, []])"
    using m by (simp add: no no2)
  then show ?thesis by (simp add: field_search_def re_search_multiline_def)
qed

lemma universal_newlines_Cons:
  "CHR 0x0D \<noteq> c \<Longrightarrow> universal_newlines (c # s) = c # universal_newlines s"
  by (cases s) auto

lemma universal_newlines_prefix:
  "CHR 0x0D \<notin> set a \<Longrightarrow> universal_newlines (a @ b) = a @ universal_newlines b"
  by (induction a) (auto simp: universal_newlines_Cons)

lemma dropWhile_id: "xs \<noteq> [] \<Longrightarrow> \<not> P (hd xs) \<Longrightarrow> dropWhile P xs = xs"
  by (cases xs) auto

lemma strip_id: "t \<noteq> [] \<Longrightarrow> \<not> isspace (hd t) \<Longrightarrow> \<not> isspace (last t) \<Longrightarrow> strip t = t"
proof -
  assume a: "t \<noteq> []" "\<not> isspace (hd t)" "\<not> isspace (last t)"
  then have 1: "dropWhile isspace t = t" by (simp add: dropWhile_id)
  have "hd (rev t) = last t" using a(1) by (simp add: hd_rev)
  then have 2: "dropWhile isspace (rev t) = rev t" using a by (simp add: dropWhile_id)
  show ?thesis by (simp add: strip_def 1 2)
qed

section \<open>Normalisation and trailing separators\<close>

lemma split_not_Nil: "split c s \<noteq> []"
  by (induction s) (auto split: list.splits)

lemma split_append_sep: "split c (a @ c # b) = split c a @ split c b"
proof (induction a)
  case Nil
  then show ?case by simp
next
  case (Cons x a)
  obtain w ws where "split c a = w # ws"
    using split_not_Nil [of c a] by (cases "split c a") auto
  with Cons show ?case by simp
qed

lemma split_sep_free: "w \<in> set (split c s) \<Longrightarrow> c \<notin> set w"
  by (induction s arbitrary: w) (auto split: if_splits list.splits)

lemma norm_step_empty: "norm_step i acc [] = acc"
  by (simp add: norm_step_def)

lemma norm_step_zero_cong: "(i = 0) = (j = 0) \<Longrightarrow> norm_step i acc w = norm_step j acc w"
  by (auto simp: norm_step_def)

lemma foldl_norm_step_zero_cong:
  "(i = 0) = (j = 0) \<Longrightarrow> foldl (norm_step i) acc ws = foldl (norm_step j) acc ws"
  by (induction ws arbitrary: acc) (simp_all add: norm_step_zero_cong [of i j])

lemma foldl_norm_step_subset:
  "set (foldl (norm_step i) acc ws) \<subseteq> set acc \<union> set ws"
proof (induction ws arbitrary: acc)
  case Nil
  then show ?case by simp
next
  case (Cons w ws)
  have "set (norm_step i acc w) \<subseteq> set acc \<union> {w}"
    by (auto simp: norm_step_def dest: in_set_butlastD)
  with Cons [of "norm_step i acc w"] show ?case by auto
qed

lemma initial_slashes_zero: "initial_slashes p = 0 \<longleftrightarrow> \<not> prefix [SEP] p"
  by (simp add: initial_slashes_def)

lemma initial_slashes_snoc_zero:
  "p \<noteq> [] \<Longrightarrow> (initial_slashes (p @ [SEP]) = 0) = (initial_slashes p = 0)"
  by (cases p) (simp_all add: initial_slashes_zero)

lemma basename_sep_free: "SEP \<notin> set y \<Longrightarrow> basename y = y"
proof -
  assume "SEP \<notin> set y"
  then have "takeWhile (\<lambda>c. c \<noteq> SEP) (rev y) = rev y"
    by (intro takeWhile_eq_all_conv [THEN iffD2]) auto
  then show ?thesis unfolding basename_def by (simp only: rev_rev_ident)
qed

lemma basename_after_sep: "SEP \<notin> set y \<Longrightarrow> basename (x @ SEP # y) = y"
proof -
  assume "SEP \<notin> set y"
  then have "takeWhile (\<lambda>c. c \<noteq> SEP) (rev y @ SEP # rev x) = rev y @ takeWhile (\<lambda>c. c \<noteq> SEP) (SEP # rev x)"
    by (intro takeWhile_append2) auto
  then show ?thesis by (simp add: basename_def)
qed

lemma join_snoc: "join sep (ws @ [w]) = (if ws = [] then w else join sep ws @ sep @ w)"
  by (induction sep ws rule: join.induct) auto

lemma basename_slashes: "basename (replicate (Suc n) SEP) = []"
proof -
  show ?thesis unfolding basename_def rev_replicate by simp
qed

lemma normpath_alt:
  "p \<noteq> [] \<Longrightarrow> normpath p =
     (let q = replicate (initial_slashes p) SEP @ join [SEP] (norm_comps p)
      in if q = [] then ''.'' else q)"
  by (simp add: normpath_def norm_comps_def Let_def)

lemma foldl_norm_step_no_empty:
  "[] \<notin> set acc \<Longrightarrow> [] \<notin> set (foldl (norm_step i) acc ws)"
proof (induction ws arbitrary: acc)
  case Nil
  then show ?case by simp
next
  case (Cons w ws)
  have "[] \<notin> set (norm_step i acc w)"
    using Cons.prems by (auto simp: norm_step_def dest: in_set_butlastD)
  then show ?case using Cons.IH by simp
qed

lemma norm_comps_no_empty: "[] \<notin> set (norm_comps p)"
  unfolding norm_comps_def by (rule foldl_norm_step_no_empty) simp

lemma norm_comps_sep_free: "w \<in> set (norm_comps p) \<Longrightarrow> SEP \<notin> set w"
  using foldl_norm_step_subset [of "initial_slashes p" "[]" "split SEP p"] split_sep_free
  unfolding norm_comps_def by fastforce

lemma basename_normpath:
  assumes "p \<noteq> []"
  shows "basename (normpath p) =
           (if norm_comps p = [] then (if initial_slashes p = 0 then ''.'' else [])
            else last (norm_comps p))"
proof (cases "norm_comps p = []")
  case True
  show ?thesis
  proof (cases "initial_slashes p")
    case 0
    have "basename ''.'' = ''.''" by (rule basename_sep_free) (simp add: SEP_def)
    then show ?thesis using True 0 assms by (simp add: normpath_alt)
  next
    case (Suc n)
    then show ?thesis using True assms basename_slashes [of n]
      by (simp add: normpath_alt del: replicate_Suc)
  qed
next
  case False
  then obtain ws w where ws: "norm_comps p = ws @ [w]" by (metis rev_exhaust)
  then have free: "SEP \<notin> set w" using norm_comps_sep_free [of w p] by simp
  have "basename (replicate (initial_slashes p) SEP @ join [SEP] (ws @ [w])) = w"
  proof (cases "ws = []")
    case True
    show ?thesis
    proof (cases "initial_slashes p")
      case 0
      then show ?thesis using True free by (simp add: basename_sep_free)
    next
      case (Suc n)
      have "replicate (Suc n) SEP @ w = replicate n SEP @ SEP # w"
        by (simp add: replicate_append_same)
      then show ?thesis using True Suc free basename_after_sep [OF free, of "replicate n SEP"]
        by (simp del: replicate_Suc)
    qed
  next
    case False
    then show ?thesis
      using basename_after_sep [OF free, of "replicate (initial_slashes p) SEP @ join [SEP] ws"]
      by (simp add: join_snoc)
  qed
  moreover have "w \<noteq> []" using norm_comps_no_empty [of p] ws by auto
  then have "replicate (initial_slashes p) SEP @ join [SEP] (ws @ [w]) \<noteq> []"
    by (auto simp: join_snoc)
  ultimately show ?thesis using assms ws
    by (auto simp: normpath_alt Let_def)
qed

lemma norm_comps_snoc_sep: "p \<noteq> [] \<Longrightarrow> norm_comps (p @ [SEP]) = norm_comps p"
  using foldl_norm_step_zero_cong [OF initial_slashes_snoc_zero, of p "[]" "split SEP p"]
  by (simp add: norm_comps_def split_append_sep norm_step_empty)

lemma skill_dir_trailing_sep:
  "p \<noteq> [] \<Longrightarrow> basename (normpath (p @ [SEP])) = basename (normpath p)"
  by (simp add: basename_normpath norm_comps_snoc_sep initial_slashes_snoc_zero)


lemma split_sep_free_id: "c \<notin> set x \<Longrightarrow> split c x = [x]"
  by (induction x) auto

lemma path_components_sep_name:
  assumes "x \<noteq> []" and "SEP \<notin> set x"
  shows "path_components (a @ SEP # x) = filter (\<lambda>w. w \<noteq> []) (split SEP a) @ [x]"
proof -
  have "last (a @ SEP # x) \<noteq> SEP" using assms by (metis last_appendR last_ConsR last_in_set list.distinct(1))
  then show ?thesis using assms
    by (simp add: path_components_def split_append_sep split_sep_free_id)
qed

lemma path_join_name:
  assumes "x \<noteq> []" and "SEP \<notin> set x"
  shows "path_join a x = (if a = [] \<or> last a = SEP then a @ x else a @ SEP # x)"
proof -
  have "\<not> prefix [SEP] x" using assms by (cases x) auto
  then show ?thesis by (simp add: path_join_def)
qed

lemma fsencode_length_append:
  "fsencode_length (a @ b) = fsencode_length a + fsencode_length b"
  by (simp add: fsencode_length_def)

lemma fsencode_length_Cons: "fsencode_length (c # s) \<ge> Suc (fsencode_length s)"
  by (simp add: fsencode_length_def)

lemma os_stat_overlong: "PATH_MAX \<le> fsencode_length s \<Longrightarrow> os_stat fs cwd s = None"
  by (simp add: os_stat_def)

text \<open>Joining a name to a path with one more separator gives a text that is no shorter.\<close>

lemma path_join_sep_longer:
  assumes "x \<noteq> []" and "SEP \<notin> set x"
  shows "fsencode_length (path_join p x) \<le> fsencode_length (path_join (p @ [SEP]) x)"
  using assms fsencode_length_Cons [of x SEP]
  by (simp add: path_join_name fsencode_length_append)

lemma os_stat_join_trailing:
  assumes "p \<noteq> []" and "x \<noteq> []" and "SEP \<notin> set x"
    and "fsencode_length (path_join (p @ [SEP]) x) < PATH_MAX"
  shows "os_stat fs cwd (path_join (p @ [SEP]) x) = os_stat fs cwd (path_join p x)"
proof (cases "last p = SEP")
  case True
  then obtain q where q: "p = q @ [SEP]" using assms(1) by (metis append_butlast_last_id)
  have l: "path_join (p @ [SEP]) x = (q @ [SEP]) @ SEP # x"
    using assms q by (simp add: path_join_name)
  have r: "path_join p x = q @ SEP # x"
    using assms q by (simp add: path_join_name)
  have b1: "\<not> PATH_MAX \<le> fsencode_length ((q @ [SEP]) @ SEP # x)"
    using assms(4) unfolding l by simp
  have "fsencode_length (q @ SEP # x) \<le> fsencode_length ((q @ [SEP]) @ SEP # x)"
    using path_join_sep_longer [OF assms(2,3), of p] unfolding l r .
  then have b2: "\<not> PATH_MAX \<le> fsencode_length (q @ SEP # x)"
    using b1 by simp
  have "path_components ((q @ [SEP]) @ SEP # x) = path_components (q @ SEP # x)"
    unfolding path_components_sep_name [OF assms(2,3), of "q @ [SEP]"]
      path_components_sep_name [OF assms(2,3), of q]
    by (simp add: split_append_sep)
  moreover have "hd ((q @ [SEP]) @ SEP # x) = hd (q @ SEP # x)" by (cases q) auto
  ultimately show ?thesis unfolding l r os_stat_def using b1 b2 by simp
next
  case False
  then show ?thesis using assms by (simp add: path_join_name)
qed

lemma validate_skill_trailing_sep:
  assumes "p \<noteq> []"
    and "fsencode_length (path_join (p @ [SEP]) ''references'') < PATH_MAX"
  shows "validate_skill fs cwd (p @ [SEP]) = validate_skill fs cwd p"
proof -
  have n: "SEP \<notin> set ''SKILL.md''" "SEP \<notin> set ''references''" "SEP \<notin> set ''scripts''"
    by (simp_all add: SEP_def)
  have b: "fsencode_length (path_join (p @ [SEP]) ''SKILL.md'') < PATH_MAX"
    "fsencode_length (path_join (p @ [SEP]) ''scripts'') < PATH_MAX"
    using assms(2) n
    by (simp_all add: path_join_name fsencode_length_append)
       (simp_all add: fsencode_length_def ord_def)
  have s: "os_stat fs cwd (path_join (p @ [SEP]) ''SKILL.md'') = os_stat fs cwd (path_join p ''SKILL.md'')"
    "os_stat fs cwd (path_join (p @ [SEP]) ''references'') = os_stat fs cwd (path_join p ''references'')"
    "os_stat fs cwd (path_join (p @ [SEP]) ''scripts'') = os_stat fs cwd (path_join p ''scripts'')"
    using assms n b by (simp_all add: os_stat_join_trailing)
  have a: "advisory_notes fs cwd (p @ [SEP]) = advisory_notes fs cwd p"
    by (simp add: advisory_notes_def os_path_isdir_def s)
  have e: "os_path_exists fs cwd (path_join (p @ [SEP]) ''SKILL.md'')
             = os_path_exists fs cwd (path_join p ''SKILL.md'')"
    by (simp add: os_path_exists_def s)
  have r: "read_text fs cwd (path_join (p @ [SEP]) ''SKILL.md'')
             = read_text fs cwd (path_join p ''SKILL.md'')"
    by (simp add: read_text_def s)
  show ?thesis
    unfolding validate_skill_def Let_def a e r skill_dir_trailing_sep [OF assms(1)] ..
qed

lemma validator_main_trailing_sep:
  "p \<noteq> [] \<Longrightarrow> fsencode_length (path_join (p @ [SEP]) ''references'') < PATH_MAX \<Longrightarrow>
     validator_main fs cwd (p @ [SEP]) = validator_main fs cwd p"
  by (simp add: validator_main_def validate_skill_trailing_sep skill_dir_trailing_sep)

lemma fsencode_length_separators: "fsencode_length (replicate k SEP) = k"
  by (induction k) (simp_all add: fsencode_length_def SEP_def ord_def)

lemma skill_dir_trailing_seps:
  "p \<noteq> [] \<Longrightarrow> basename (normpath (p @ replicate k SEP)) = basename (normpath p)"
proof (induction k)
  case 0
  then show ?case by simp
next
  case (Suc k)
  have e: "p @ replicate (Suc k) SEP = (p @ replicate k SEP) @ [SEP]"
    by (simp add: replicate_append_same)
  have ne: "p @ replicate k SEP \<noteq> []" using Suc.prems by simp
  show ?case unfolding e using Suc skill_dir_trailing_sep [OF ne] by simp
qed

lemma validate_skill_trailing_seps:
  assumes "p \<noteq> []"
  shows "fsencode_length (path_join (p @ replicate k SEP) ''references'') < PATH_MAX \<Longrightarrow>
           validate_skill fs cwd (p @ replicate k SEP) = validate_skill fs cwd p
         \<and> validator_main fs cwd (p @ replicate k SEP) = validator_main fs cwd p"
proof (induction k)
  case 0
  then show ?case by simp
next
  case (Suc k)
  have e: "p @ replicate (Suc k) SEP = (p @ replicate k SEP) @ [SEP]"
    by (simp add: replicate_append_same)
  have ne: "p @ replicate k SEP \<noteq> []" using assms by simp
  have b: "fsencode_length (path_join ((p @ replicate k SEP) @ [SEP]) ''references'') < PATH_MAX"
    using Suc.prems unfolding e .
  have "fsencode_length (path_join (p @ replicate k SEP) ''references'')
          \<le> fsencode_length (path_join ((p @ replicate k SEP) @ [SEP]) ''references'')"
    by (rule path_join_sep_longer) (simp_all add: SEP_def)
  then have "fsencode_length (path_join (p @ replicate k SEP) ''references'') < PATH_MAX"
    using b by simp
  then show ?case
    unfolding e
    using Suc.IH validate_skill_trailing_sep [OF ne b] validator_main_trailing_sep [OF ne b]
    by simp
qed

text \<open>
  A path name that is too long for the system names nothing: the validator reports the
  entry document as missing and both optional directories as absent.
\<close>

lemma validate_skill_overlong:
  assumes "PATH_MAX \<le> fsencode_length path"
  shows "validate_skill fs cwd path
           = Inr \<lparr>errors = (if \<not> name_rule (basename (normpath path)) then [MSG_NAMING] else [])
                            @ [MSG_MISSING_ENTRY],
                  warnings = [MSG_NO_REFERENCES, MSG_NO_SCRIPTS]\<rparr>"
proof -
  have n: "SEP \<notin> set ''SKILL.md''" "SEP \<notin> set ''references''" "SEP \<notin> set ''scripts''"
    by (simp_all add: SEP_def)
  have "PATH_MAX \<le> fsencode_length (path_join path x)" if "x \<noteq> []" "SEP \<notin> set x" for x
    using assms that by (simp add: path_join_name fsencode_length_append)
  then have "os_stat fs cwd (path_join path ''SKILL.md'') = None"
    "os_stat fs cwd (path_join path ''references'') = None"
    "os_stat fs cwd (path_join path ''scripts'') = None"
    using n by (simp_all add: os_stat_overlong)
  then show ?thesis
    by (simp add: validate_skill_def advisory_notes_def os_path_exists_def os_path_isdir_def
        Let_def)
qed

subsection \<open>The text of an absolute path and its resolution\<close>

lemma walk_valid:
  "list_all valid_name q \<Longrightarrow> (\<forall>k < length q. node_at fs (cur @ take k q) = Some Dir) \<Longrightarrow>
     walk fs cur q = Some (cur @ q)"
proof (induction q arbitrary: cur)
  case Nil
  then show ?case by simp
next
  case (Cons w q)
  have c: "node_at fs cur = Some Dir" using Cons.prems(2) by (auto dest: spec [of _ 0])
  have "\<forall>k < length q. node_at fs ((cur @ [w]) @ take k q) = Some Dir"
  proof (intro allI impI)
    fix k assume "k < length q"
    then have "node_at fs (cur @ take (Suc k) (w # q)) = Some Dir"
      using Cons.prems(2) by (metis Suc_less_eq length_Cons)
    then show "node_at fs ((cur @ [w]) @ take k q) = Some Dir" by simp
  qed
  then have "walk fs (cur @ [w]) q = Some ((cur @ [w]) @ q)"
    using Cons.IH Cons.prems(1) by simp
  then show ?case using c Cons.prems(1) by (simp add: valid_name_def)
qed

lemma split_join:
  "p \<noteq> [] \<Longrightarrow> list_all (\<lambda>w. c \<notin> set w) p \<Longrightarrow> split c (join [c] p) = p"
proof (induction "[c]" p rule: join.induct)
  case 1
  then show ?case by simp
next
  case (2 w)
  then show ?case by (simp add: split_sep_free_id)
next
  case (3 w v ws)
  then show ?case by (simp add: split_append_sep split_sep_free_id)
qed

lemma valid_names_sep_free: "list_all valid_name p \<Longrightarrow> list_all (\<lambda>w. SEP \<notin> set w) p"
  by (simp add: list_all_iff valid_name_def)

lemma split_path_str:
  "p \<noteq> [] \<Longrightarrow> list_all valid_name p \<Longrightarrow> split SEP (path_str p) = [] # p"
  by (simp add: path_str_def split_join valid_names_sep_free)

lemma valid_name_ends: "valid_name w \<Longrightarrow> w \<noteq> [] \<and> last w \<noteq> SEP \<and> hd w \<noteq> SEP"
  unfolding valid_name_def by (metis last_in_set hd_in_set)

lemma last_join:
  "p \<noteq> [] \<Longrightarrow> list_all valid_name p \<Longrightarrow> join [SEP] p \<noteq> [] \<and> last (join [SEP] p) \<noteq> SEP
     \<and> hd (join [SEP] p) \<noteq> SEP"
proof (induction "[SEP]" p rule: join.induct)
  case 1
  then show ?case by simp
next
  case (2 w)
  then show ?case using valid_name_ends [of w] by simp
next
  case (3 w v ws)
  then show ?case using valid_name_ends [of w] by simp
qed

lemma foldl_norm_step_valid:
  "list_all valid_name ws \<Longrightarrow> list_all valid_name acc \<Longrightarrow>
     foldl (norm_step i) acc ws = acc @ ws"
  by (induction ws arbitrary: acc) (auto simp: norm_step_def valid_name_def)

lemma skill_dir_path_str:
  assumes "p \<noteq> []" and "list_all valid_name p"
  shows "basename (normpath (path_str p)) = last p"
proof -
  have "norm_comps (path_str p) = p"
    unfolding norm_comps_def split_path_str [OF assms]
    using foldl_norm_step_valid [OF assms(2), of "[]"] by (simp add: norm_step_empty)
  moreover have "path_str p \<noteq> []" by (simp add: path_str_def)
  ultimately show ?thesis using assms(1) by (simp add: basename_normpath)
qed

lemma path_join_path_str:
  assumes "p \<noteq> []" and "list_all valid_name p" and "valid_name x"
  shows "path_join (path_str p) x = path_str p @ SEP # x"
proof -
  have x: "x \<noteq> []" "SEP \<notin> set x" using assms(3) by (simp_all add: valid_name_def)
  have "path_str p \<noteq> []" "last (path_str p) \<noteq> SEP"
    using last_join [OF assms(1,2)] by (simp_all add: path_str_def)
  then show ?thesis by (simp add: path_join_name [OF x])
qed

lemma os_stat_path_str:
  assumes "p \<noteq> []" and "list_all valid_name p" and "valid_name x"
    and "\<forall>k \<le> length p. node_at fs (take k p) = Some Dir"
    and "fsencode_length (path_join (path_str p) x) < PATH_MAX"
  shows "os_stat fs cwd (path_join (path_str p) x) = node_at fs (p @ [x])"
proof -
  have x: "x \<noteq> []" "SEP \<notin> set x" using assms(3) by (simp_all add: valid_name_def)
  have l: "path_str p \<noteq> []" "last (path_str p) \<noteq> SEP"
    using last_join [OF assms(1,2)] by (simp_all add: path_str_def)
  have j: "path_join (path_str p) x = path_str p @ SEP # x"
    using l by (simp add: path_join_name [OF x])
  have c: "path_components (path_str p @ SEP # x) = p @ [x]"
    unfolding path_components_sep_name [OF x] split_path_str [OF assms(1,2)]
    using assms(2) by (simp add: list_all_iff valid_name_def filter_id_conv)
  have "\<forall>k < length (p @ [x]). node_at fs ([] @ take k (p @ [x])) = Some Dir"
    using assms(4) by (simp add: less_Suc_eq_le)
  then have w: "walk fs [] (p @ [x]) = Some (p @ [x])"
    using walk_valid [of "p @ [x]" fs "[]"] assms(2,3) by simp
  have b: "\<not> PATH_MAX \<le> fsencode_length (path_str p @ SEP # x)"
    using assms(5) unfolding j by simp
  show ?thesis
    unfolding j os_stat_def c
    using b by (simp add: path_str_def w)
qed

section \<open>The naming check against the specification's wording\<close>

text \<open>
  C2. The specification's naming law asks for lowercase alphanumerics and hyphens only.
  The check of the code accepts the two-letter name \<^verbatim>\<open>ab\<close> followed by a newline,
  which the law excludes: \<^verbatim>\<open>$\<close> also matches before a newline that ends the text. By
  \<open>name_rule_iff\<close> this is the only way in which the two differ. On the four examples
  of the claim the check answers as the claim says (\<open>name_rule_examples\<close>).
\<close>

theorem name_rule_accepts_trailing_newline:
  "name_rule (''ab'' @ [NL]) \<and> \<not> spec_legal_identifier (''ab'' @ [NL])"
  by (simp add: rx_eval spec_legal_identifier_def)

lemma name_rule_examples:
  "name_rule ''my-skill''" "\<not> name_rule ''My-Skill''" "\<not> name_rule ''-abc''"
  "\<not> name_rule [c]"
  by (simp_all add: name_rule_iff spec_legal_identifier_def lower_alnum_hyphen_def
      lower_alnum_def ord_def)

lemma name_rule_without_newline:
  "NL \<notin> set s \<Longrightarrow> name_rule s = spec_legal_identifier s"
  by (auto simp: name_rule_iff)

section \<open>The scaffolder's preconditions\<close>

text \<open>
  C4. A name that fails the naming check makes \<^verbatim>\<open>scaffold_skill\<close> fail with the naming
  error, and the file system is the one it was given: nothing was created or changed.
\<close>

theorem scaffold_rejects_illegal_name:
  "\<not> name_rule skill_name \<Longrightarrow>
     scaffold_skill tpl e fs skill_name simple_mode = (Inl NamingViolation, fs)"
  by (simp add: scaffold_skill_def)

theorem scaffold_rejects_illegal_name_witness:
  "\<not> name_rule ''My-Skill''
   \<and> scaffold_skill example_templates repo_env repo_fs ''My-Skill'' False
       = (Inl NamingViolation, repo_fs)"
proof -
  have h: "\<not> name_rule ''My-Skill''"
    by (simp add: rx_eval)
  show ?thesis
    using h scaffold_rejects_illegal_name [OF h, of example_templates repo_env repo_fs False]
    by simp
qed



section \<open>The validator's findings\<close>

text \<open>
  C6. When the derived identifier passes the naming check and the entry document does
  not exist, the only CRITICAL finding is the missing entry document: no finding about
  the name or the description is produced, the report is the FAIL report and the exit
  code is 1.
\<close>

theorem missing_entry_document_short_circuit:
  assumes "name_rule (basename (normpath path))"
    and "\<not> os_path_exists fs cwd (path_join path ''SKILL.md'')"
  shows "validate_skill fs cwd path
           = Inr \<lparr>errors = [MSG_MISSING_ENTRY], warnings = advisory_notes fs cwd path\<rparr>
         \<and> stdout (validator_main fs cwd path)
           = [Validating (basename (normpath path)), FailBanner, Critical MSG_MISSING_ENTRY]
         \<and> exit_code (validator_main fs cwd path) = 1"
  using assms by (simp add: validate_skill_def validator_main_def final_report_def Let_def)

theorem missing_entry_document_short_circuit_witness:
  "name_rule (basename (normpath ''/p/empty-pkg''))
   \<and> os_path_isdir packages_fs [] ''/p/empty-pkg''
   \<and> \<not> os_path_exists packages_fs [] (path_join ''/p/empty-pkg'' ''SKILL.md'')
   \<and> validate_skill packages_fs [] ''/p/empty-pkg''
       = Inr \<lparr>errors = [MSG_MISSING_ENTRY], warnings = [MSG_NO_REFERENCES, MSG_NO_SCRIPTS]\<rparr>
   \<and> exit_code (validator_main packages_fs [] ''/p/empty-pkg'') = 1"
proof -
  have h1: "name_rule (basename (normpath ''/p/empty-pkg''))"
    by code_simp
  have h2: "\<not> os_path_exists packages_fs [] (path_join ''/p/empty-pkg'' ''SKILL.md'')"
    by code_simp
  have h3: "os_path_isdir packages_fs [] ''/p/empty-pkg''"
    by code_simp
  have h4: "advisory_notes packages_fs [] ''/p/empty-pkg'' = [MSG_NO_REFERENCES, MSG_NO_SCRIPTS]"
    by code_simp
  show ?thesis
    using h1 h2 h3 h4 missing_entry_document_short_circuit [OF h1 h2] by simp
qed

text \<open>
  C3, as the code has it. When the entry document exists and its bytes do not decode,
  the read raises \<^verbatim>\<open>UnicodeDecodeError\<close>, which nothing catches: the checks produce no
  report, the process prints only its first line and ends with exit code 1.
\<close>

theorem unreadable_entry_document_raises:
  assumes "os_stat fs cwd (path_join path ''SKILL.md'') = Some (File Undecodable x)"
  shows "validate_skill fs cwd path = Inl UnicodeDecodeError
         \<and> validator_main fs cwd path
             = \<lparr>stdout = [Validating (basename (normpath path))], exit_code = 1\<rparr>"
  using assms
  by (simp add: validate_skill_def validator_main_def Let_def os_path_exists_def read_text_def)

theorem unreadable_entry_document_raises_witness:
  "os_stat broken_fs [] (path_join ''/p/ok-name'' ''SKILL.md'') = Some (File Undecodable False)
   \<and> validate_skill broken_fs [] ''/p/ok-name'' = Inl UnicodeDecodeError
   \<and> validator_main broken_fs [] ''/p/ok-name''
       = \<lparr>stdout = [Validating ''ok-name''], exit_code = 1\<rparr>"
proof -
  have h: "os_stat broken_fs [] (path_join ''/p/ok-name'' ''SKILL.md'')
             = Some (File Undecodable False)"
    by code_simp
  have n: "basename (normpath ''/p/ok-name'') = ''ok-name''"
    by code_simp
  show ?thesis
    using h n unreadable_entry_document_raises [OF h] by simp
qed

text \<open>
  The claim as stated fails: the document of \<^verbatim>\<open>/p/ok-name\<close> exists and does not
  decode, and the run ends in the exception instead of a report with a finding.
\<close>

theorem unreadable_entry_document_counterexample:
  "os_path_exists broken_fs [] (path_join ''/p/ok-name'' ''SKILL.md'')
   \<and> validate_skill broken_fs [] ''/p/ok-name'' = Inl UnicodeDecodeError"
  by code_simp

lemma readable_or_absent_cases:
  assumes "readable_or_absent fs cwd s"
  obtains "os_stat fs cwd s = None" | t x where "os_stat fs cwd s = Some (File (Text t) x)"
proof (cases "os_stat fs cwd s")
  case None
  then show ?thesis using that(1) by simp
next
  case (Some n)
  show ?thesis
  proof (cases n)
    case Dir
    then show ?thesis using assms Some by (simp add: readable_or_absent_def)
  next
    case (File c x)
    then show ?thesis using assms Some that(2)
      by (cases c) (simp_all add: readable_or_absent_def)
  qed
qed

text \<open>
  C7, as the code has it. When the derived identifier fails the naming check and the
  entry document is absent or readable, the run produces a report; the naming finding is
  its first CRITICAL finding and the other checks are made all the same: the missing
  entry document, a missing or mismatching name and a missing description are each
  reported when present, and the advisory notes are the ones the directory calls for.
  With no entry document the CRITICAL findings are exactly the naming finding and the
  missing-document finding.
\<close>

theorem naming_violation_does_not_short_circuit:
  assumes "\<not> name_rule (basename (normpath path))"
    and "readable_or_absent fs cwd (path_join path ''SKILL.md'')"
  shows "\<exists>r. validate_skill fs cwd path = Inr r
           \<and> hd (errors r) = MSG_NAMING
           \<and> (\<not> os_path_exists fs cwd (path_join path ''SKILL.md'')
                \<longrightarrow> errors r = [MSG_NAMING, MSG_MISSING_ENTRY])
           \<and> (\<forall>content. read_text fs cwd (path_join path ''SKILL.md'') = Inr content \<longrightarrow>
                 (field_search ''name'' content = None \<longrightarrow> MSG_MISSING_NAME \<in> set (errors r))
               \<and> (\<forall>g. field_search ''name'' content = Some g
                        \<and> strip g \<noteq> basename (normpath path)
                      \<longrightarrow> MSG_MISMATCH (strip g) (basename (normpath path)) \<in> set (errors r))
               \<and> (field_search ''description'' content = None
                      \<longrightarrow> MSG_MISSING_DESCRIPTION \<in> set (errors r)))
           \<and> warnings r = advisory_notes fs cwd path"
  using assms(2)
proof (cases rule: readable_or_absent_cases)
  case 1
  then show ?thesis using assms(1)
    by (simp add: validate_skill_def Let_def os_path_exists_def read_text_def)
next
  case (2 t x)
  then show ?thesis using assms(1)
    by (auto simp: validate_skill_def Let_def os_path_exists_def read_text_def
        split: option.splits)
qed

theorem naming_violation_does_not_short_circuit_witness:
  "\<not> name_rule (basename (normpath ''/p/Bad''))
   \<and> readable_or_absent packages_fs [] (path_join ''/p/Bad'' ''SKILL.md'')
   \<and> validate_skill packages_fs [] ''/p/Bad''
       = Inr \<lparr>errors = [MSG_NAMING, MSG_MISSING_ENTRY],
              warnings = [MSG_NO_REFERENCES, MSG_NO_SCRIPTS]\<rparr>"
proof -
  have h1: "\<not> name_rule (basename (normpath ''/p/Bad''))" by code_simp
  have h2: "readable_or_absent packages_fs [] (path_join ''/p/Bad'' ''SKILL.md'')" by code_simp
  have h3: "\<not> os_path_exists packages_fs [] (path_join ''/p/Bad'' ''SKILL.md'')" by code_simp
  have h4: "advisory_notes packages_fs [] ''/p/Bad'' = [MSG_NO_REFERENCES, MSG_NO_SCRIPTS]"
    by code_simp
  from naming_violation_does_not_short_circuit [OF h1 h2]
  obtain r where "validate_skill packages_fs [] ''/p/Bad'' = Inr r"
    and "errors r = [MSG_NAMING, MSG_MISSING_ENTRY]"
    and "warnings r = advisory_notes packages_fs [] ''/p/Bad''"
    using h3 by blast
  then show ?thesis using h1 h2 h4 by simp
qed

text \<open>
  The claim as stated fails where the entry document of an illegally named package does
  not decode: the run ends in the exception and reports no finding, the naming one
  included.
\<close>

theorem naming_violation_counterexample:
  "\<not> name_rule (basename (normpath ''/p/Bad''))
   \<and> validate_skill broken_fs [] ''/p/Bad'' = Inl UnicodeDecodeError
   \<and> stdout (validator_main broken_fs [] ''/p/Bad'') = [Validating ''Bad'']"
  by code_simp

text \<open>
  C8, as the code has it. For a package whose derived identifier is \<^verbatim>\<open>my-skill\<close> and
  whose entry document declares the name \<^verbatim>\<open>other-name\<close>, the first CRITICAL finding
  is the mismatch, whose message contains both names; it is the only finding exactly
  when the document also has a description, and otherwise the missing-description
  finding, which does not cite the declared name, follows it.
\<close>

theorem metadata_mismatch_reported:
  assumes "basename (normpath path) = ''my-skill''"
    and "read_text fs cwd (path_join path ''SKILL.md'') = Inr content"
    and "field_search ''name'' content = Some g"
    and "strip g = ''other-name''"
  shows "validate_skill fs cwd path
           = Inr \<lparr>errors = MSG_MISMATCH ''other-name'' ''my-skill''
                            # (if field_search ''description'' content = None
                               then [MSG_MISSING_DESCRIPTION] else []),
                  warnings = advisory_notes fs cwd path\<rparr>
         \<and> sublist ''other-name'' (MSG_MISMATCH ''other-name'' ''my-skill'')
         \<and> sublist ''my-skill'' (MSG_MISMATCH ''other-name'' ''my-skill'')
         \<and> \<not> sublist ''other-name'' MSG_MISSING_DESCRIPTION"
proof -
  have n: "name_rule ''my-skill''" by (simp add: rx_eval)
  have e: "os_path_exists fs cwd (path_join path ''SKILL.md'')"
    using assms(2) by (auto simp: read_text_def os_path_exists_def split: option.splits)
  have s: "sublist ''other-name'' (MSG_MISMATCH ''other-name'' ''my-skill'')"
    "sublist ''my-skill'' (MSG_MISMATCH ''other-name'' ''my-skill'')"
    "\<not> sublist ''other-name'' MSG_MISSING_DESCRIPTION"
    by code_simp+
  show ?thesis using assms n e s
    by (simp add: validate_skill_def Let_def)
qed

theorem metadata_mismatch_reported_witness:
  "basename (normpath ''/p/my-skill'') = ''my-skill''
   \<and> validate_skill packages_fs [] ''/p/my-skill''
       = Inr \<lparr>errors = [MSG_MISMATCH ''other-name'' ''my-skill''],
              warnings = [MSG_NO_REFERENCES, MSG_NO_SCRIPTS]\<rparr>"
proof -
  define content where "content = ''---'' @ [NL] @ ''name: other-name'' @ [NL]
                     @ ''description: does things'' @ [NL] @ ''---'' @ [NL]"
  have h1: "basename (normpath ''/p/my-skill'') = ''my-skill''" by code_simp
  have h2: "read_text packages_fs [] (path_join ''/p/my-skill'' ''SKILL.md'') = Inr content"
    unfolding content_def by code_simp
  have h3: "field_search ''name'' content = Some ''other-name''"
    unfolding content_def by code_simp
  have h4: "strip ''other-name'' = ''other-name''" by code_simp
  have h5: "field_search ''description'' content \<noteq> None"
    unfolding content_def by code_simp
  have h6: "advisory_notes packages_fs [] ''/p/my-skill'' = [MSG_NO_REFERENCES, MSG_NO_SCRIPTS]"
    by code_simp
  show ?thesis
    using h1 h5 h6 metadata_mismatch_reported [OF h1 h2 h3 h4] by simp
qed

text \<open>
  The claim as stated fails for a document that declares the name and no description:
  the report has two CRITICAL findings.
\<close>

theorem metadata_mismatch_counterexample:
  "basename (normpath ''/p/my-skill'') = ''my-skill''
   \<and> read_text broken_fs [] (path_join ''/p/my-skill'' ''SKILL.md'')
       = Inr (''---'' @ [NL] @ ''name: other-name'' @ [NL] @ ''---'' @ [NL])
   \<and> field_search ''name'' (''---'' @ [NL] @ ''name: other-name'' @ [NL] @ ''---'' @ [NL])
       = Some ''other-name''
   \<and> validate_skill broken_fs [] ''/p/my-skill''
       = Inr \<lparr>errors = [MSG_MISMATCH ''other-name'' ''my-skill'', MSG_MISSING_DESCRIPTION],
              warnings = [MSG_NO_REFERENCES, MSG_NO_SCRIPTS]\<rparr>"
  by code_simp

text \<open>
  C9, as the code has it. The process ends with exit code 0 exactly when the checks
  complete with an empty CRITICAL list. When they complete, every CRITICAL finding is
  printed, an ADVISORY finding is printed exactly when the CRITICAL list is empty, and
  the exit code depends on the CRITICAL list alone. When they end in an exception the
  process prints its first line only and ends with exit code 1. A valid package without
  \<^verbatim>\<open>references/\<close> and \<^verbatim>\<open>scripts/\<close> passes with exactly two ADVISORY findings, both
  printed, and exit code 0.
\<close>

theorem validator_exit_status_and_visibility:
  "(exit_code (validator_main fs cwd path) = 0
      \<longleftrightarrow> (\<exists>r. validate_skill fs cwd path = Inr r \<and> errors r = []))
   \<and> (\<forall>r. validate_skill fs cwd path = Inr r \<longrightarrow>
         (\<forall>e \<in> set (errors r). Critical e \<in> set (stdout (validator_main fs cwd path)))
       \<and> (\<forall>w \<in> set (warnings r).
            (Note w \<in> set (stdout (validator_main fs cwd path))) = (errors r = []))
       \<and> exit_code (validator_main fs cwd path) = (if errors r = [] then 0 else 1))
   \<and> (\<forall>e. validate_skill fs cwd path = Inl e \<longrightarrow>
         validator_main fs cwd path
           = \<lparr>stdout = [Validating (basename (normpath path))], exit_code = 1\<rparr>)
   \<and> (name_rule (basename (normpath path))
        \<and> read_text fs cwd (path_join path ''SKILL.md'') = Inr content
        \<and> field_search ''name'' content = Some g \<and> strip g = basename (normpath path)
        \<and> field_search ''description'' content \<noteq> None
        \<and> \<not> os_path_isdir fs cwd (path_join path ''references'')
        \<and> \<not> os_path_isdir fs cwd (path_join path ''scripts'')
      \<longrightarrow> validate_skill fs cwd path
            = Inr \<lparr>errors = [], warnings = [MSG_NO_REFERENCES, MSG_NO_SCRIPTS]\<rparr>
          \<and> validator_main fs cwd path
            = \<lparr>stdout = [Validating (basename (normpath path)), PassBanner, InfoBanner,
                          Note MSG_NO_REFERENCES, Note MSG_NO_SCRIPTS],
               exit_code = 0\<rparr>)"
proof (intro conjI allI impI)
  show "exit_code (validator_main fs cwd path) = 0
      \<longleftrightarrow> (\<exists>r. validate_skill fs cwd path = Inr r \<and> errors r = [])"
    by (cases "validate_skill fs cwd path") (auto simp: validator_main_def final_report_def)
next
  fix r assume r: "validate_skill fs cwd path = Inr r"
  show "\<forall>e \<in> set (errors r). Critical e \<in> set (stdout (validator_main fs cwd path))"
    using r by (auto simp: validator_main_def final_report_def)
  show "\<forall>w \<in> set (warnings r).
            (Note w \<in> set (stdout (validator_main fs cwd path))) = (errors r = [])"
    using r by (auto simp: validator_main_def final_report_def)
  show "exit_code (validator_main fs cwd path) = (if errors r = [] then 0 else 1)"
    using r by (simp add: validator_main_def final_report_def)
next
  fix e assume "validate_skill fs cwd path = Inl e"
  then show "validator_main fs cwd path
           = \<lparr>stdout = [Validating (basename (normpath path))], exit_code = 1\<rparr>"
    by (simp add: validator_main_def)
next
  assume a: "name_rule (basename (normpath path))
        \<and> read_text fs cwd (path_join path ''SKILL.md'') = Inr content
        \<and> field_search ''name'' content = Some g \<and> strip g = basename (normpath path)
        \<and> field_search ''description'' content \<noteq> None
        \<and> \<not> os_path_isdir fs cwd (path_join path ''references'')
        \<and> \<not> os_path_isdir fs cwd (path_join path ''scripts'')"
  then have e: "os_path_exists fs cwd (path_join path ''SKILL.md'')"
    by (auto simp: read_text_def os_path_exists_def split: option.splits)
  show v: "validate_skill fs cwd path
            = Inr \<lparr>errors = [], warnings = [MSG_NO_REFERENCES, MSG_NO_SCRIPTS]\<rparr>"
    using a e by (simp add: validate_skill_def advisory_notes_def Let_def)
  show "validator_main fs cwd path
            = \<lparr>stdout = [Validating (basename (normpath path)), PassBanner, InfoBanner,
                          Note MSG_NO_REFERENCES, Note MSG_NO_SCRIPTS],
               exit_code = 0\<rparr>"
    by (simp add: validator_main_def v final_report_def)
qed

theorem validator_exit_status_and_visibility_witness:
  "name_rule (basename (normpath ''/p/good-one''))
   \<and> \<not> os_path_isdir packages_fs [] (path_join ''/p/good-one'' ''references'')
   \<and> \<not> os_path_isdir packages_fs [] (path_join ''/p/good-one'' ''scripts'')
   \<and> validate_skill packages_fs [] ''/p/good-one''
       = Inr \<lparr>errors = [], warnings = [MSG_NO_REFERENCES, MSG_NO_SCRIPTS]\<rparr>
   \<and> validator_main packages_fs [] ''/p/good-one''
       = \<lparr>stdout = [Validating ''good-one'', PassBanner, InfoBanner,
                     Note MSG_NO_REFERENCES, Note MSG_NO_SCRIPTS],
          exit_code = 0\<rparr>"
proof -
  define content where "content = ''---'' @ [NL] @ ''name: good-one'' @ [NL]
                     @ ''description: does things'' @ [NL] @ ''---'' @ [NL]"
  have h0: "basename (normpath ''/p/good-one'') = ''good-one''" by code_simp
  have h1: "name_rule (basename (normpath ''/p/good-one''))" by code_simp
  have h2: "read_text packages_fs [] (path_join ''/p/good-one'' ''SKILL.md'') = Inr content"
    unfolding content_def by code_simp
  have h3: "field_search ''name'' content = Some ''good-one''"
    unfolding content_def by code_simp
  have h4: "strip ''good-one'' = basename (normpath ''/p/good-one'')" by code_simp
  have h5: "field_search ''description'' content \<noteq> None"
    unfolding content_def by code_simp
  have h6: "\<not> os_path_isdir packages_fs [] (path_join ''/p/good-one'' ''references'')"
    by code_simp
  have h7: "\<not> os_path_isdir packages_fs [] (path_join ''/p/good-one'' ''scripts'')"
    by code_simp
  show ?thesis
    using h0 h1 h2 h3 h4 h5 h6 h7
      validator_exit_status_and_visibility
        [of packages_fs "[]" "''/p/good-one''" content "''good-one''"]
    by simp
qed

text \<open>
  The claim as stated fails where the entry document does not decode. For the legally
  named package \<^verbatim>\<open>/p/ok-name\<close> no check has found anything when the read fails, and
  the exit code is 1. For the illegally named package \<^verbatim>\<open>/p/Bad\<close> the naming finding
  has been recorded when the read fails, and it is not printed.
\<close>

theorem validator_exit_status_counterexample:
  "name_rule (basename (normpath ''/p/ok-name''))
   \<and> os_path_exists broken_fs [] (path_join ''/p/ok-name'' ''SKILL.md'')
   \<and> exit_code (validator_main broken_fs [] ''/p/ok-name'') = 1
   \<and> stdout (validator_main broken_fs [] ''/p/ok-name'') = [Validating ''ok-name'']
   \<and> \<not> name_rule (basename (normpath ''/p/Bad''))
   \<and> stdout (validator_main broken_fs [] ''/p/Bad'') = [Validating ''Bad'']"
  by code_simp

section \<open>What the scaffolder's steps change\<close>

lemma keeps_refl: "keeps md fs fs"
  by (simp add: keeps_def)

lemma keeps_trans: "keeps md fs fs1 \<Longrightarrow> keeps md fs1 fs2 \<Longrightarrow> keeps md fs fs2"
  by (simp add: keeps_def)

lemma keeps_dir: "keeps md fs fs' \<Longrightarrow> node_at fs q = Some Dir \<Longrightarrow> node_at fs' q = Some Dir"
  by (simp add: keeps_def)

lemma os_mkdir_keeps: "os_mkdir p fs = (r, fs') \<Longrightarrow> md \<noteq> p \<Longrightarrow> keeps md fs fs'"
  by (auto simp: os_mkdir_def keeps_def node_at_def split: if_splits option.splits node.splits)

lemma os_mkdir_success: "os_mkdir p fs = (None, fs') \<Longrightarrow> node_at fs' p = Some Dir"
  by (auto simp: os_mkdir_def node_at_def split: if_splits option.splits node.splits)

lemma os_mkdir_dirs:
  "os_mkdir p fs = (r, fs') \<Longrightarrow> node_at fs q = Some Dir \<Longrightarrow> node_at fs' q = Some Dir"
  by (auto simp: os_mkdir_def node_at_def split: if_splits option.splits node.splits)

declare path_mkdir.simps [simp del]

lemma path_mkdir_single:
  "path_mkdir False ok p fs =
     (case os_mkdir p fs of
        (None, fs') \<Rightarrow> (None, fs')
      | (Some e, fs') \<Rightarrow>
          if e = FileNotFoundError \<or> \<not> ok \<or> \<not> path_is_dir fs' p then (Some e, fs')
          else (None, fs'))"
  by (subst path_mkdir.simps) (auto split: prod.splits option.splits)

lemma os_mkdir_failure: "os_mkdir p fs = (Some e, fs') \<Longrightarrow> fs' = fs"
  by (auto simp: os_mkdir_def split: if_splits option.splits node.splits)

lemma path_mkdir_single_keeps:
  "path_mkdir False ok p fs = (r, fs') \<Longrightarrow> md \<noteq> p \<Longrightarrow> keeps md fs fs'"
  unfolding path_mkdir_single
  by (auto simp: os_mkdir_keeps split: prod.splits option.splits if_splits)

lemma path_mkdir_single_success:
  "path_mkdir False ok p fs = (None, fs') \<Longrightarrow> node_at fs' p = Some Dir"
  unfolding path_mkdir_single
  by (auto simp: os_mkdir_success path_is_dir_def split: prod.splits option.splits if_splits)

lemma path_mkdir_dirs:
  "path_mkdir parents ok p fs = (r, fs') \<Longrightarrow> node_at fs q = Some Dir \<Longrightarrow>
     node_at fs' q = Some Dir"
proof (induction parents ok p fs arbitrary: r fs' rule: path_mkdir.induct)
  case (1 parents exist_ok p fs)
  obtain r0 fs0 where o: "os_mkdir p fs = (r0, fs0)" by (cases "os_mkdir p fs")
  have d0: "node_at fs0 q = Some Dir" using os_mkdir_dirs [OF o "1.prems"(2)] .
  show ?case
  proof (cases r0)
    case None
    then show ?thesis using "1.prems"(1) o d0 by (simp add: path_mkdir.simps [of parents exist_ok p fs])
  next
    case (Some e)
    show ?thesis
    proof (cases "e = FileNotFoundError \<and> parents \<and> p \<noteq> []")
      case False
      then show ?thesis using "1.prems"(1) o d0 Some
        by (auto simp: path_mkdir.simps [of parents exist_ok p fs] split: if_splits)
    next
      case True
      then have c: "e = FileNotFoundError" "\<not> (\<not> parents \<or> p = [])" by simp_all
      obtain r1 fs1 where m: "path_mkdir True True (butlast p) fs0 = (r1, fs1)"
        by (cases "path_mkdir True True (butlast p) fs0")
      have d1: "node_at fs1 q = Some Dir"
        using "1.IH"(1) [OF o [symmetric] Some c m d0] .
      show ?thesis
      proof (cases r1)
        case None
        have "path_mkdir False exist_ok p fs1 = (r, fs')"
          using "1.prems"(1) o Some c m None
          by (simp add: path_mkdir.simps [of parents exist_ok p fs])
        then show ?thesis
          using "1.IH"(2) [OF o [symmetric] Some c m [symmetric] None _ d1] by simp
      next
        case (Some e1)
        then show ?thesis using "1.prems"(1) o \<open>r0 = Some e\<close> c m d1
          by (simp add: path_mkdir.simps [of parents exist_ok p fs])
      qed
    qed
  qed
qed

lemma path_mkdir_success:
  "path_mkdir parents ok p fs = (None, fs') \<Longrightarrow> node_at fs' p = Some Dir"
proof (induction parents ok p fs arbitrary: fs' rule: path_mkdir.induct)
  case (1 parents exist_ok p fs)
  obtain r0 fs0 where o: "os_mkdir p fs = (r0, fs0)" by (cases "os_mkdir p fs")
  show ?case
  proof (cases r0)
    case None
    then show ?thesis using "1.prems"(1) o os_mkdir_success [of p fs fs0]
      by (simp add: path_mkdir.simps [of parents exist_ok p fs])
  next
    case (Some e)
    show ?thesis
    proof (cases "e = FileNotFoundError \<and> parents \<and> p \<noteq> []")
      case False
      then show ?thesis using "1.prems"(1) o Some
        by (auto simp: path_mkdir.simps [of parents exist_ok p fs] path_is_dir_def
            split: if_splits)
    next
      case True
      then have c: "e = FileNotFoundError" "\<not> (\<not> parents \<or> p = [])" by simp_all
      obtain r1 fs1 where m: "path_mkdir True True (butlast p) fs0 = (r1, fs1)"
        by (cases "path_mkdir True True (butlast p) fs0")
      show ?thesis
      proof (cases r1)
        case None
        have "path_mkdir False exist_ok p fs1 = (None, fs')"
          using "1.prems"(1) o Some c m None
          by (simp add: path_mkdir.simps [of parents exist_ok p fs])
        then show ?thesis by (rule path_mkdir_single_success)
      next
        case (Some e1)
        then show ?thesis using "1.prems"(1) o \<open>r0 = Some e\<close> c m
          by (simp add: path_mkdir.simps [of parents exist_ok p fs])
      qed
    qed
  qed
qed

lemma path_write_text_keeps:
  "path_write_text t text fs = (r, fs') \<Longrightarrow> md \<noteq> t \<Longrightarrow> keeps md fs fs'"
  by (auto simp: path_write_text_def keeps_def node_at_def
      split: if_splits option.splits node.splits)

lemma path_write_text_success:
  "path_write_text t text fs = (None, fs') \<Longrightarrow>
     (\<exists>x. fs' t = Some (File (Text text) x)) \<and> t \<noteq> []
     \<and> (\<forall>q. node_at fs q = Some Dir \<longrightarrow> node_at fs' q = Some Dir)"
  by (auto simp: path_write_text_def node_at_def split: if_splits option.splits node.splits)

lemma path_chmod_755_keeps:
  "path_chmod_755 t fs = (r, fs') \<Longrightarrow> md \<noteq> t \<Longrightarrow> keeps md fs fs'"
  by (auto simp: path_chmod_755_def keeps_def node_at_def
      split: if_splits option.splits node.splits)

lemma in_sequence_success:
  "in_sequence (stmt # stmts) fs = (None, fs') \<Longrightarrow>
     \<exists>fs1. stmt fs = (None, fs1) \<and> in_sequence stmts fs1 = (None, fs')"
  by (auto split: prod.splits option.splits)

lemma create_resources_effect:
  assumes "create_resources tpl p n title fs = (None, fs')"
  shows "keeps (p @ [''SKILL.md'']) fs fs'
         \<and> node_at fs' (p @ [''scripts'']) = Some Dir
         \<and> node_at fs' (p @ [''references'']) = Some Dir"
proof -
  let ?md = "p @ [''SKILL.md'']"
  let ?sd = "p @ [''scripts'']" and ?rd = "p @ [''references'']" and ?ad = "p @ [''assets'']"
  let ?o1 = "path_mkdir False True ?sd"
  let ?o2 = "path_write_text (?sd @ [''example.py'']) (example_script tpl n)"
  let ?o3 = "path_chmod_755 (?sd @ [''example.py''])"
  let ?o4 = "path_mkdir False True ?rd"
  let ?o5 = "path_write_text (?rd @ [''example_reference.md'']) (example_reference tpl title)"
  let ?o6 = "path_mkdir False True ?ad"
  let ?o7 = "path_write_text (?ad @ [''README.md'']) (assets_readme tpl)"
  from assms have "in_sequence [?o1, ?o2, ?o3, ?o4, ?o5, ?o6, ?o7] fs = (None, fs')"
    unfolding create_resources_def Let_def .
  then obtain f1 where s1: "?o1 fs = (None, f1)"
    and "in_sequence [?o2, ?o3, ?o4, ?o5, ?o6, ?o7] f1 = (None, fs')"
    by (blast dest: in_sequence_success)
  then obtain f2 where s2: "?o2 f1 = (None, f2)"
    and "in_sequence [?o3, ?o4, ?o5, ?o6, ?o7] f2 = (None, fs')"
    by (blast dest: in_sequence_success)
  then obtain f3 where s3: "?o3 f2 = (None, f3)"
    and "in_sequence [?o4, ?o5, ?o6, ?o7] f3 = (None, fs')"
    by (blast dest: in_sequence_success)
  then obtain f4 where s4: "?o4 f3 = (None, f4)"
    and "in_sequence [?o5, ?o6, ?o7] f4 = (None, fs')"
    by (blast dest: in_sequence_success)
  then obtain f5 where s5: "?o5 f4 = (None, f5)"
    and "in_sequence [?o6, ?o7] f5 = (None, fs')"
    by (blast dest: in_sequence_success)
  then obtain f6 where s6: "?o6 f5 = (None, f6)"
    and "in_sequence [?o7] f6 = (None, fs')"
    by (blast dest: in_sequence_success)
  then have s7: "?o7 f6 = (None, fs')"
    by (auto split: prod.splits option.splits)
  have k1: "keeps ?md fs f1" using path_mkdir_single_keeps [OF s1] by simp
  have k2: "keeps ?md f1 f2" using path_write_text_keeps [OF s2] by simp
  have k3: "keeps ?md f2 f3" using path_chmod_755_keeps [OF s3] by simp
  have k4: "keeps ?md f3 f4" using path_mkdir_single_keeps [OF s4] by simp
  have k5: "keeps ?md f4 f5" using path_write_text_keeps [OF s5] by simp
  have k6: "keeps ?md f5 f6" using path_mkdir_single_keeps [OF s6] by simp
  have k7: "keeps ?md f6 fs'" using path_write_text_keeps [OF s7] by simp
  have a: "keeps ?md fs fs'"
    using k1 k2 k3 k4 k5 k6 k7 by (blast intro: keeps_trans)
  have "node_at f1 (p @ [''scripts'']) = Some Dir" using path_mkdir_single_success [OF s1] .
  then have b: "node_at fs' (p @ [''scripts'']) = Some Dir"
    using k2 k3 k4 k5 k6 k7 by (blast intro: keeps_dir)
  have "node_at f4 (p @ [''references'']) = Some Dir" using path_mkdir_single_success [OF s4] .
  then have c: "node_at fs' (p @ [''references'']) = Some Dir"
    using k5 k6 k7 by (blast intro: keeps_dir)
  show ?thesis using a b c by simp
qed

lemma path_mkdir_parent:
  assumes "path_mkdir parents False p fs = (None, fs')" and "p \<noteq> []"
  shows "node_at fs' (butlast p) = Some Dir"
proof -
  obtain r0 fs0 where o: "os_mkdir p fs = (r0, fs0)" by (cases "os_mkdir p fs")
  show ?thesis
  proof (cases r0)
    case None
    then have "fs' = fs0" using assms(1) o by (simp add: path_mkdir.simps [of parents False p fs])
    moreover have "node_at fs (butlast p) = Some Dir"
      using o None assms(2) by (auto simp: os_mkdir_def split: option.splits node.splits if_splits)
    ultimately show ?thesis using os_mkdir_dirs [OF o] by simp
  next
    case (Some e)
    then have c: "e = FileNotFoundError" "parents"
      using assms(1) o by (auto simp: path_mkdir.simps [of parents False p fs] split: if_splits)
    obtain r1 fs1 where m: "path_mkdir True True (butlast p) fs0 = (r1, fs1)"
      by (cases "path_mkdir True True (butlast p) fs0")
    have r1: "r1 = None" and l: "path_mkdir False False p fs1 = (None, fs')"
      using assms o Some c m
      by (auto simp: path_mkdir.simps [of True False p fs] split: option.splits)
    have "node_at fs1 (butlast p) = Some Dir"
      using path_mkdir_success m r1 by simp
    then show ?thesis using path_mkdir_dirs [OF l] by simp
  qed
qed

text \<open>What a call of \<^verbatim>\<open>scaffold_skill\<close> that succeeds leaves behind.\<close>

lemma scaffold_success:
  assumes "scaffold_skill tpl e fs n simple = (Inr p, fs')"
  shows "name_rule n \<and> p = find_skills_dir e fs @ [n]
     \<and> (\<exists>x. fs' (p @ [''SKILL.md''])
              = Some (File (Text (skill_md_content tpl n (title_case_skill_name n))) x))
     \<and> node_at fs' p = Some Dir
     \<and> node_at fs' (butlast p) = Some Dir
     \<and> (\<forall>q. node_at fs q = Some Dir \<longrightarrow> node_at fs' q = Some Dir)
     \<and> (\<not> simple \<longrightarrow> node_at fs' (p @ [''scripts'']) = Some Dir
                      \<and> node_at fs' (p @ [''references'']) = Some Dir)"
proof -
  let ?p = "find_skills_dir e fs @ [n]"
  let ?c = "skill_md_content tpl n (title_case_skill_name n)"
  have n: "name_rule n" using assms by (auto simp: scaffold_skill_def split: if_splits)
  have ne: "\<not> path_exists fs ?p"
    using assms n by (auto simp: scaffold_skill_def Let_def split: if_splits)
  obtain r1 fs1 where m: "path_mkdir True False ?p fs = (r1, fs1)"
    by (cases "path_mkdir True False ?p fs")
  have r1: "r1 = None"
    using assms n ne m by (auto simp: scaffold_skill_def Let_def split: option.splits)
  obtain r2 fs2 where w: "path_write_text (?p @ [''SKILL.md'']) ?c fs1 = (r2, fs2)"
    by (cases "path_write_text (?p @ [''SKILL.md'']) ?c fs1")
  have r2: "r2 = None"
    using assms n ne m r1 w by (auto simp: scaffold_skill_def Let_def split: option.splits)
  have d1: "node_at fs1 ?p = Some Dir" using path_mkdir_success m r1 by simp
  have d1': "node_at fs1 (butlast ?p) = Some Dir" using path_mkdir_parent [of True ?p fs fs1] m r1 by simp
  have k1: "\<forall>q. node_at fs q = Some Dir \<longrightarrow> node_at fs1 q = Some Dir"
    using path_mkdir_dirs [OF m] by simp
  have w2: "(\<exists>x. fs2 (?p @ [''SKILL.md'']) = Some (File (Text ?c) x))"
    and k2: "\<forall>q. node_at fs1 q = Some Dir \<longrightarrow> node_at fs2 q = Some Dir"
    using path_write_text_success [of "?p @ [''SKILL.md'']" ?c fs1 fs2] w r2 by simp_all
  show ?thesis
  proof (cases simple)
    case True
    then have "p = ?p" "fs' = fs2"
      using assms n ne m r1 w r2 by (auto simp: scaffold_skill_def Let_def)
    then show ?thesis using n w2 d1 d1' k1 k2 True by simp
  next
    case False
    obtain r3 fs3 where c: "create_resources tpl ?p n (title_case_skill_name n) fs2 = (r3, fs3)"
      by (cases "create_resources tpl ?p n (title_case_skill_name n) fs2")
    have r3: "r3 = None" and "p = ?p" "fs' = fs3"
      using assms n ne m r1 w r2 c False
      by (auto simp: scaffold_skill_def Let_def split: option.splits)
    moreover from c r3
    have "create_resources tpl ?p n (title_case_skill_name n) fs2 = (None, fs3)" by simp
    note create_resources_effect [OF this]
    ultimately show ?thesis using n w2 d1 d1' k1 k2
      by (simp add: keeps_def)
  qed
qed

lemma wf_fs_prefixes:
  "wf_fs fs \<Longrightarrow> node_at fs p \<noteq> None \<Longrightarrow>
     list_all valid_name p \<and> (\<forall>k < length p. node_at fs (take k p) = Some Dir)"
proof (induction p rule: rev_induct)
  case Nil
  then show ?case by simp
next
  case (snoc w q)
  from snoc.prems have "fs (q @ [w]) \<noteq> None" by (simp add: node_at_def)
  with snoc.prems(1) have v: "valid_name w" and d: "node_at fs q = Some Dir"
    unfolding wf_fs_def by (metis last_snoc butlast_snoc)+
  then have ih: "list_all valid_name q" "\<forall>k < length q. node_at fs (take k q) = Some Dir"
    using snoc.IH snoc.prems(1) by simp_all
  have "node_at fs (take k (q @ [w])) = Some Dir" if "k < length (q @ [w])" for k
  proof (cases "k < length q")
    case True
    then show ?thesis using ih(2) by simp
  next
    case False
    then have "k = length q" using that by simp
    then show ?thesis using d by simp
  qed
  then show ?case using ih(1) v by simp
qed

lemma find_skills_dir_exists:
  "path_exists fs (working_dir e) \<Longrightarrow> path_exists fs (find_skills_dir e fs)"
  by (auto simp: find_skills_dir_def split: option.splits simp: find_Some_iff)

lemma name_rule_valid_name: "name_rule n \<Longrightarrow> valid_name n"
proof -
  assume "name_rule n"
  then obtain t where t: "spec_legal_identifier t" and n: "n = t \<or> n = t @ [NL]"
    unfolding name_rule_iff by blast
  have c: "\<And>c. lower_alnum_hyphen c \<Longrightarrow> c \<noteq> SEP \<and> c \<noteq> CHR ''.''"
    by (auto simp: lower_alnum_hyphen_def lower_alnum_def ord_def SEP_def)
  have s: "SEP \<notin> set t" "CHR ''.'' \<notin> set t" "2 \<le> length t"
    using t c by (auto simp: spec_legal_identifier_def list_all_iff)
  then have "valid_name t" by (auto simp: valid_name_def)
  moreover have "valid_name (t @ [NL])"
    using s by (cases t) (auto simp: valid_name_def NL_def SEP_def)
  ultimately show ?thesis using n by auto
qed

section \<open>Scaffolding, then validating\<close>

lemma description_line_found:
  "field_search ''description'' (a @ NL # DESCRIPTION_LINE @ NL # rest) \<noteq> None"
proof -
  let ?t = "''[TODO: Complete and informative explanation of what the skill does and when to use it. Include WHEN to use this skill - specific scenarios, file types, or tasks that trigger it.]''"
  have d: "DESCRIPTION_LINE = ''description'' @ '': '' @ ?t"
    by (simp add: DESCRIPTION_LINE_def)
  have f: "field_search ''description'' (a @ NL # ''description'' @ '': '' @ ?t @ NL # rest) \<noteq> None"
    by (rule field_search_found) (simp_all add: NL_def isspace_def ord_def)
  show ?thesis unfolding d using f by simp
qed

lemma legal_chars:
  assumes "spec_legal_identifier t"
  shows "t \<noteq> []" "NL \<notin> set t" "CHR 0x0D \<notin> set t" "\<not> isspace (hd t)" "\<not> isspace (last t)"
proof -
  have c: "\<And>c. lower_alnum_hyphen c \<Longrightarrow> c \<noteq> NL \<and> c \<noteq> CHR 0x0D \<and> \<not> isspace c"
    by (auto simp: lower_alnum_hyphen_def lower_alnum_def isspace_def ord_def NL_def)
  show "t \<noteq> []" using assms by (auto simp: spec_legal_identifier_def)
  show "NL \<notin> set t" "CHR 0x0D \<notin> set t"
    using assms c by (auto simp: spec_legal_identifier_def list_all_iff)
  show "\<not> isspace (hd t)" "\<not> isspace (last t)"
    using assms c by (auto simp: spec_legal_identifier_def lower_alnum_hyphen_def)
qed

text \<open>
  The entry document that the scaffolder writes for the name \<open>t\<close> followed by \<open>sfx\<close>,
  where \<open>sfx\<close> is empty or a newline, as the validator reads it.
\<close>

lemma scaffolded_document_fields:
  assumes "spec_legal_identifier t" and "sfx = [] \<or> sfx = [NL]"
  shows "field_search ''name'' (universal_newlines (skill_md_content tpl (t @ sfx) title)) = Some t"
    and "field_search ''description'' (universal_newlines (skill_md_content tpl (t @ sfx) title))
           \<noteq> None"
proof -
  note l = legal_chars [OF assms(1)]
  let ?rest = "''---'' @ [NL, NL] @ ''# '' @ title @ md_guidance tpl @ (t @ sfx)
       @ ''`'' @ [NL] @ ''5. Test the skill with real use cases'' @ [NL]
       @ ''6. Iterate based on feedback'' @ [NL]"
  let ?head = "''---'' @ [NL] @ ''name: '' @ (t @ sfx) @ [NL] @ DESCRIPTION_LINE @ [NL]"
  have c: "skill_md_content tpl (t @ sfx) title = ?head @ ?rest"
    by (simp add: skill_md_content_def)
  have cr: "CHR 0x0D \<notin> set ?head"
    using l(3) assms(2) by (auto simp: DESCRIPTION_LINE_def NL_def)
  define R where "R = universal_newlines ?rest"
  have u: "universal_newlines (skill_md_content tpl (t @ sfx) title) = ?head @ R"
    unfolding c R_def using cr by (rule universal_newlines_prefix)
  have "field_search ''name'' (?head @ R)
          = field_search ''name''
              (''---'' @ [NL] @ ''name: '' @ t @ NL # (sfx @ DESCRIPTION_LINE @ [NL] @ R))"
    using assms(2) by (elim disjE) simp_all
  also have "\<dots> = Some t"
    by (rule name_field_of_front_matter [OF l(1,2,4)])
  finally show "field_search ''name'' (universal_newlines (skill_md_content tpl (t @ sfx) title)) = Some t"
    unfolding u .
  have e: "?head @ R = (''---'' @ [NL] @ ''name: '' @ (t @ sfx)) @ NL # DESCRIPTION_LINE @ NL # R"
    by simp
  show "field_search ''description'' (universal_newlines (skill_md_content tpl (t @ sfx) title))
           \<noteq> None"
    unfolding u e by (rule description_line_found)
qed

text \<open>
  The round trip: after a call of \<^verbatim>\<open>scaffold_skill\<close> that succeeds, in a well-formed
  file system and with a working directory that exists, the validator applied to the
  returned path completes, provided the text of the path is short enough for the
  system; it finds nothing CRITICAL when the name has no newline, and the name mismatch
  when it has one; after a full scaffold it has no advisory note.
\<close>

lemma scaffold_then_validate:
  assumes wf: "wf_fs fs" and wd: "path_exists fs (working_dir e)"
    and sc: "scaffold_skill tpl e fs n simple = (Inr p, fs')"
    and len: "fsencode_length (path_join (path_str p) ''references'') < PATH_MAX"
  shows "\<exists>r. validate_skill fs' cwd (path_str p) = Inr r
           \<and> errors r = (if NL \<in> set n then [MSG_MISMATCH (butlast n) n] else [])
           \<and> (\<not> simple \<longrightarrow> warnings r = [])"
proof -
  let ?root = "find_skills_dir e fs"
  note s = scaffold_success [OF sc]
  from s have nr: "name_rule n" and p: "p = ?root @ [n]" by simp_all
  from s obtain x where md: "fs' (p @ [''SKILL.md''])
      = Some (File (Text (skill_md_content tpl n (title_case_skill_name n))) x)" by blast
  from s have dp: "node_at fs' p = Some Dir" and dr: "node_at fs' ?root = Some Dir"
    and kept: "\<And>q. node_at fs q = Some Dir \<Longrightarrow> node_at fs' q = Some Dir"
    using p by simp_all
  have "node_at fs ?root \<noteq> None"
    using find_skills_dir_exists [OF wd] by (simp add: path_exists_def)
  from wf_fs_prefixes [OF wf this]
  have vr: "list_all valid_name ?root"
    and pr: "\<forall>k < length ?root. node_at fs (take k ?root) = Some Dir" by simp_all
  have vp: "list_all valid_name p" using vr name_rule_valid_name [OF nr] p by simp
  have ne: "p \<noteq> []" using p by simp
  have dirs: "\<forall>k \<le> length p. node_at fs' (take k p) = Some Dir"
  proof (intro allI impI)
    fix k assume k: "k \<le> length p"
    have "length p = Suc (length ?root)" using p by simp
    then consider "k < length ?root" | "k = length ?root" | "k = length p"
      using k by linarith
    then show "node_at fs' (take k p) = Some Dir"
    proof cases
      case 1
      then show ?thesis using pr kept p by simp
    next
      case 2
      then show ?thesis using dr p by simp
    next
      case 3
      then show ?thesis using dp by simp
    qed
  qed
  have v: "valid_name ''SKILL.md''" "valid_name ''references''" "valid_name ''scripts''"
    by (simp_all add: valid_name_def SEP_def)
  have lens: "fsencode_length (path_join (path_str p) ''SKILL.md'') < PATH_MAX"
    "fsencode_length (path_join (path_str p) ''scripts'') < PATH_MAX"
    using len
    unfolding path_join_path_str [OF ne vp v(1)] path_join_path_str [OF ne vp v(2)]
      path_join_path_str [OF ne vp v(3)] fsencode_length_append
    by (simp_all add: fsencode_length_def ord_def)
  have st: "os_stat fs' cwd (path_join (path_str p) ''SKILL.md'')
              = Some (File (Text (skill_md_content tpl n (title_case_skill_name n))) x)"
    using os_stat_path_str [OF ne vp v(1) dirs lens(1)] md by (simp add: node_at_def)
  have sd: "basename (normpath (path_str p)) = n"
    using skill_dir_path_str [OF ne vp] p by simp
  from nr obtain t sfx where t: "spec_legal_identifier t" and n: "n = t @ sfx"
    and sfx: "sfx = [] \<or> sfx = [NL]"
    unfolding name_rule_iff by (metis append_Nil2)
  note f = scaffolded_document_fields [OF t sfx, of tpl "title_case_skill_name n", folded n]
  note l = legal_chars [OF t]
  have strip: "strip t = t" using strip_id l by simp
  have cmp: "(t \<noteq> n) = (NL \<in> set n)" "NL \<in> set n \<Longrightarrow> butlast n = t"
    using n sfx l(2) by auto
  from s have sub: "\<not> simple \<Longrightarrow> node_at fs' (p @ [''references'']) = Some Dir"
    "\<not> simple \<Longrightarrow> node_at fs' (p @ [''scripts'']) = Some Dir" by blast+
  have adv: "\<not> simple \<Longrightarrow> advisory_notes fs' cwd (path_str p) = []"
    using sub os_stat_path_str [OF ne vp v(2) dirs len] os_stat_path_str [OF ne vp v(3) dirs lens(2)]
    by (simp add: advisory_notes_def os_path_isdir_def)
  show ?thesis
    using nr f strip cmp adv
    by (auto simp: validate_skill_def Let_def sd os_path_exists_def read_text_def st)
qed

lemma wf_repo_fs: "wf_fs repo_fs"
  by (auto simp: wf_fs_def repo_fs_def valid_name_def node_at_def SEP_def split: if_splits)

lemma repo_scaffold:
  "name_rule n \<Longrightarrow>
     fst (scaffold_skill tpl repo_env repo_fs n simple) = Inr [''repo'', ''.github'', ''skills'', n]"
  by (simp add: scaffold_skill_def find_skills_dir_def skills_dir_of_def path_exists_def
        path_is_dir_def os_mkdir_def path_write_text_def path_chmod_755_def create_resources_def
        node_at_def Let_def repo_env_def repo_fs_def path_mkdir.simps)


text \<open>
  C1. The round trip holds for every name without a newline (\<open>scaffold_then_validate\<close>),
  and fails for the names that the naming check accepts with a newline at the end: for
  the name \<^verbatim>\<open>ab\<close> followed by a newline, in the repository of the examples, with any
  template text and in both modes, \<^verbatim>\<open>scaffold_skill\<close> succeeds and the validator then
  reports the name mismatch as a CRITICAL finding.
\<close>

theorem roundtrip_fails_on_trailing_newline:
  "name_rule (''ab'' @ [NL])
   \<and> fst (scaffold_skill tpl repo_env repo_fs (''ab'' @ [NL]) simple)
       = Inr [''repo'', ''.github'', ''skills'', ''ab'' @ [NL]]
   \<and> map_sum id errors
        (validate_skill (snd (scaffold_skill tpl repo_env repo_fs (''ab'' @ [NL]) simple)) cwd
           (path_str [''repo'', ''.github'', ''skills'', ''ab'' @ [NL]]))
       = Inr [MSG_MISMATCH ''ab'' (''ab'' @ [NL])]"
proof -
  let ?n = "''ab'' @ [NL]" and ?p = "[''repo'', ''.github'', ''skills'', ''ab'' @ [NL]]"
  have n: "name_rule ?n" by (simp add: rx_eval)
  have f: "fst (scaffold_skill tpl repo_env repo_fs ?n simple) = Inr ?p"
    using repo_scaffold [OF n, of tpl simple] by simp
  then have sc: "scaffold_skill tpl repo_env repo_fs ?n simple
                   = (Inr ?p, snd (scaffold_skill tpl repo_env repo_fs ?n simple))"
    by (metis prod.collapse)
  have wd: "path_exists repo_fs (working_dir repo_env)"
    by (simp add: path_exists_def repo_env_def repo_fs_def node_at_def)
  have len: "fsencode_length (path_join (path_str ?p) ''references'') < PATH_MAX"
    by code_simp
  from scaffold_then_validate [OF wf_repo_fs wd sc len, of cwd]
  obtain r where "validate_skill (snd (scaffold_skill tpl repo_env repo_fs ?n simple)) cwd (path_str ?p) = Inr r"
    and "errors r = [MSG_MISMATCH ''ab'' ?n]"
    by (auto simp: NL_def)
  then show ?thesis using n f by simp
qed

section \<open>Calling the scaffolder twice\<close>

lemma changes_within_refl: "changes_within T fs fs"
  by (simp add: changes_within_def)

lemma changes_within_trans:
  "changes_within T fs fs1 \<Longrightarrow> changes_within T fs1 fs2 \<Longrightarrow> changes_within T fs fs2"
  unfolding changes_within_def by metis

lemma changes_at_target:
  "(\<And>q. q \<noteq> t \<Longrightarrow> fs' q = fs q) \<Longrightarrow> t \<noteq> [] \<Longrightarrow> last t \<in> T \<Longrightarrow> changes_within T fs fs'"
  unfolding changes_within_def by metis

lemma os_mkdir_only_target: "os_mkdir p fs = (r, fs') \<Longrightarrow> q \<noteq> p \<Longrightarrow> fs' q = fs q"
  by (auto simp: os_mkdir_def split: if_splits option.splits node.splits)

lemma os_mkdir_not_found:
  "os_mkdir p fs = (Some FileNotFoundError, fs') \<Longrightarrow> node_at fs (butlast p) = None"
  by (auto simp: os_mkdir_def split: if_splits option.splits node.splits)

lemma path_mkdir_single_only_target:
  "path_mkdir False ok p fs = (r, fs') \<Longrightarrow> q \<noteq> p \<Longrightarrow> fs' q = fs q"
  unfolding path_mkdir_single
  by (auto simp: os_mkdir_only_target split: prod.splits option.splits if_splits)

lemma path_mkdir_only_target:
  assumes "path_mkdir parents ok p fs = (r, fs')" and "node_at fs (butlast p) \<noteq> None"
    and "q \<noteq> p"
  shows "fs' q = fs q"
proof -
  obtain r0 fs0 where o: "os_mkdir p fs = (r0, fs0)" by (cases "os_mkdir p fs")
  have nf: "r0 \<noteq> Some FileNotFoundError"
    using os_mkdir_not_found [of p fs fs0] o assms(2) by auto
  have "fs' = fs0 \<or> fs' = fs"
    using assms(1) o nf os_mkdir_failure [of p fs _ fs0]
    by (auto simp: path_mkdir.simps [of parents ok p fs] split: option.splits if_splits)
  then show ?thesis using os_mkdir_only_target [OF o assms(3)] by auto
qed

lemma path_write_text_only_target:
  "path_write_text t text fs = (r, fs') \<Longrightarrow> q \<noteq> t \<Longrightarrow> fs' q = fs q"
  by (auto simp: path_write_text_def split: if_splits option.splits node.splits)

lemma path_chmod_755_only_target:
  "path_chmod_755 t fs = (r, fs') \<Longrightarrow> q \<noteq> t \<Longrightarrow> fs' q = fs q"
  by (auto simp: path_chmod_755_def split: if_splits option.splits node.splits)

lemma in_sequence_changes_within:
  "list_all (\<lambda>stmt. \<forall>f r f'. stmt f = (r, f') \<longrightarrow> changes_within T f f') stmts \<Longrightarrow>
     in_sequence stmts fs = (r, fs') \<Longrightarrow> changes_within T fs fs'"
proof (induction stmts arbitrary: fs)
  case Nil
  then show ?case by (simp add: changes_within_refl)
next
  case (Cons stmt stmts)
  obtain r1 f1 where s: "stmt fs = (r1, f1)" by (cases "stmt fs")
  have c1: "changes_within T fs f1" using Cons.prems(1) s by simp
  show ?case
  proof (cases r1)
    case None
    then have "in_sequence stmts f1 = (r, fs')" using Cons.prems(2) s by simp
    then have "changes_within T f1 fs'" using Cons.IH Cons.prems(1) by simp
    then show ?thesis using c1 by (rule changes_within_trans [rotated])
  next
    case (Some e)
    then show ?thesis using Cons.prems(2) s c1 by simp
  qed
qed

lemma create_resources_changes:
  assumes "create_resources tpl p n title fs = (r, fs')"
  shows "changes_within (scaffold_names n) fs fs'"
proof -
  let ?T = "scaffold_names n"
  have mem: "''scripts'' \<in> ?T" "''example.py'' \<in> ?T" "''references'' \<in> ?T"
    "''example_reference.md'' \<in> ?T" "''assets'' \<in> ?T" "''README.md'' \<in> ?T"
    by (simp_all add: scaffold_names_def)
  have m: "\<And>d f r f'. path_mkdir False True (p @ [d]) f = (r, f') \<Longrightarrow> d \<in> ?T \<Longrightarrow> changes_within ?T f f'"
    by (rule changes_at_target [of "p @ [d]" for d]) (auto dest: path_mkdir_single_only_target)
  have w: "\<And>d x text f r f'. path_write_text (p @ [d, x]) text f = (r, f') \<Longrightarrow> x \<in> ?T
              \<Longrightarrow> changes_within ?T f f'"
    by (rule changes_at_target [of "p @ [d, x]" for d x]) (auto dest: path_write_text_only_target)
  have c: "\<And>d x f r f'. path_chmod_755 (p @ [d, x]) f = (r, f') \<Longrightarrow> x \<in> ?T
              \<Longrightarrow> changes_within ?T f f'"
    by (rule changes_at_target [of "p @ [d, x]" for d x]) (auto dest: path_chmod_755_only_target)
  show ?thesis
    using assms unfolding create_resources_def Let_def
    by (rule in_sequence_changes_within [rotated])
       (auto intro: m w c mem)
qed


lemma scaffold_changes:
  assumes "scaffold_skill tpl e fs n simple = (res, fs')"
    and "path_exists fs (find_skills_dir e fs)"
  shows "changes_within (scaffold_names n) fs fs'"
proof -
  let ?T = "scaffold_names n" and ?p = "find_skills_dir e fs @ [n]"
  let ?title = "title_case_skill_name n"
  obtain r1 fs1 where m: "path_mkdir True False ?p fs = (r1, fs1)"
    by (cases "path_mkdir True False ?p fs")
  obtain r2 fs2 where w: "path_write_text (?p @ [''SKILL.md'']) (skill_md_content tpl n ?title) fs1
                            = (r2, fs2)"
    by (cases "path_write_text (?p @ [''SKILL.md'']) (skill_md_content tpl n ?title) fs1")
  obtain r3 fs3 where c: "create_resources tpl ?p n ?title fs2 = (r3, fs3)"
    by (cases "create_resources tpl ?p n ?title fs2")
  have "node_at fs (butlast ?p) \<noteq> None" using assms(2) by (simp add: path_exists_def)
  then have c1: "changes_within ?T fs fs1"
    using path_mkdir_only_target [OF m]
    by (intro changes_at_target [of ?p]) (auto simp: scaffold_names_def)
  have c2: "changes_within ?T fs1 fs2"
    using path_write_text_only_target [OF w]
    by (intro changes_at_target [of "?p @ [''SKILL.md'']"]) (auto simp: scaffold_names_def)
  have c3: "changes_within ?T fs2 fs3" using create_resources_changes [OF c] .
  have "fs' = fs \<or> fs' = fs1 \<or> fs' = fs2 \<or> fs' = fs3"
    using assms(1) m w c
    by (auto simp: scaffold_skill_def Let_def split: if_splits option.splits)
  moreover have c12: "changes_within ?T fs fs2" using c1 c2 by (rule changes_within_trans)
  moreover have "changes_within ?T fs fs3" using c12 c3 by (rule changes_within_trans)
  ultimately show ?thesis
    using c1 changes_within_refl [of ?T fs] by blast
qed

lemma find_skills_dir_stable:
  assumes "changes_within T fs fs'" and "''skills'' \<notin> T"
  shows "find_skills_dir e fs' = find_skills_dir e fs"
proof -
  have "fs' (g @ [''.github'', ''skills'']) = fs (g @ [''.github'', ''skills''])" for g
  proof (rule ccontr)
    assume "fs' (g @ [''.github'', ''skills'']) \<noteq> fs (g @ [''.github'', ''skills''])"
    then have "last (g @ [''.github'', ''skills'']) \<in> T"
      using assms(1) unfolding changes_within_def by blast
    then show False using assms(2) by simp
  qed
  then have eq: "path_exists fs' (skills_dir_of g) = path_exists fs (skills_dir_of g)" for g
    by (simp add: path_exists_def node_at_def skills_dir_of_def)
  show ?thesis unfolding find_skills_dir_def eq ..
qed

text \<open>
  Calling the scaffolder a second time with the same name: the second call is refused
  and changes nothing, for every name but \<^verbatim>\<open>skills\<close>.
\<close>

lemma second_scaffold_refused:
  assumes "path_exists fs (working_dir e)"
    and "scaffold_skill tpl e fs n simple = (Inr p, fs')"
    and "n \<noteq> ''skills''"
  shows "scaffold_skill tpl' e fs' n simple' = (Inl AlreadyExists, fs')"
proof -
  note s = scaffold_success [OF assms(2)]
  have "''skills'' \<notin> scaffold_names n" using assms(3) by (simp add: scaffold_names_def)
  then have "find_skills_dir e fs' = find_skills_dir e fs"
    using scaffold_changes [OF assms(2) find_skills_dir_exists [OF assms(1)]]
    by (rule find_skills_dir_stable [rotated])
  moreover from s have "name_rule n" and "node_at fs' (find_skills_dir e fs @ [n]) = Some Dir"
    by auto
  ultimately have "path_exists fs' (find_skills_dir e fs' @ [n])" and "name_rule n"
    by (simp_all add: path_exists_def)
  then show ?thesis by (simp add: scaffold_skill_def Let_def)
qed

text \<open>
  The name \<^verbatim>\<open>skills\<close> is the exception: scaffolded from the \<^verbatim>\<open>.github\<close> directory of
  a repository that has no skills directory yet, the package itself becomes the skills
  directory that the second call finds, and the second call creates a second package
  inside the first.
\<close>

lemma second_scaffold_of_skills:
  "fst (scaffold_skill example_templates bare_env bare_fs ''skills'' True)
     = Inr [''repo'', ''.github'', ''skills'']
   \<and> fst (scaffold_skill example_templates bare_env
            (snd (scaffold_skill example_templates bare_env bare_fs ''skills'' True))
            ''skills'' True)
     = Inr [''repo'', ''.github'', ''skills'', ''skills'']"
  by code_simp

section \<open>Trailing separators\<close>

text \<open>
  C10, as the code has it. For every path other than the empty one, separators added at
  the end never change the derived identifier. They change neither the outcome of the
  checks nor what the process prints and returns as long as the longest path name that
  the validator builds from the extended path, the one of \<^verbatim>\<open>references\<close>, is short
  enough for the system. Once the extended path itself is too long, every lookup fails:
  the validator reports the entry document as missing and both optional directories as
  absent.
\<close>

theorem trailing_separators_ignored:
  assumes "path \<noteq> []"
  shows "basename (normpath (path @ replicate k SEP)) = basename (normpath path)
         \<and> (fsencode_length (path_join (path @ replicate k SEP) ''references'') < PATH_MAX \<longrightarrow>
               validate_skill fs cwd (path @ replicate k SEP) = validate_skill fs cwd path
             \<and> validator_main fs cwd (path @ replicate k SEP) = validator_main fs cwd path)
         \<and> (PATH_MAX \<le> fsencode_length (path @ replicate k SEP) \<longrightarrow>
               validate_skill fs cwd (path @ replicate k SEP)
                 = Inr \<lparr>errors = (if \<not> name_rule (basename (normpath path)) then [MSG_NAMING]
                                   else []) @ [MSG_MISSING_ENTRY],
                        warnings = [MSG_NO_REFERENCES, MSG_NO_SCRIPTS]\<rparr>)"
  using skill_dir_trailing_seps [OF assms, of k]
    validate_skill_trailing_seps [OF assms, of k fs cwd]
    validate_skill_overlong [of "path @ replicate k SEP" fs cwd]
  by simp

text \<open>
  The witness adds two separators to \<^verbatim>\<open>/p/good-one\<close>, which changes nothing, and then
  4100 of them, which turns the PASS into the report of a missing entry document.
\<close>

theorem trailing_separators_ignored_witness:
  "''/p/good-one'' \<noteq> []
   \<and> basename (normpath (''/p/good-one'' @ replicate 2 SEP)) = ''good-one''
   \<and> fsencode_length (path_join (''/p/good-one'' @ replicate 2 SEP) ''references'') < PATH_MAX
   \<and> validate_skill packages_fs [] (''/p/good-one'' @ replicate 2 SEP)
       = validate_skill packages_fs [] ''/p/good-one''
   \<and> validator_main packages_fs [] (''/p/good-one'' @ replicate 2 SEP)
       = validator_main packages_fs [] ''/p/good-one''
   \<and> PATH_MAX \<le> fsencode_length (''/p/good-one'' @ replicate 4100 SEP)
   \<and> basename (normpath (''/p/good-one'' @ replicate 4100 SEP)) = ''good-one''
   \<and> validate_skill packages_fs [] (''/p/good-one'' @ replicate 4100 SEP)
       = Inr \<lparr>errors = [MSG_MISSING_ENTRY], warnings = [MSG_NO_REFERENCES, MSG_NO_SCRIPTS]\<rparr>"
proof -
  define seps where "seps = replicate 4100 SEP"
  have h: "''/p/good-one'' \<noteq> []" by simp
  have n: "basename (normpath ''/p/good-one'') = ''good-one''" by code_simp
  have nr: "name_rule ''good-one''" by (simp add: rx_eval)
  have b: "fsencode_length (path_join (''/p/good-one'' @ replicate 2 SEP) ''references'') < PATH_MAX"
    by code_simp
  have "fsencode_length ''/p/good-one'' = 11" by code_simp
  then have l: "PATH_MAX \<le> fsencode_length (''/p/good-one'' @ seps)"
    unfolding seps_def fsencode_length_append fsencode_length_separators
    by (simp add: PATH_MAX_def)
  note short = trailing_separators_ignored [OF h, of 2 packages_fs "[]"]
  note long = trailing_separators_ignored [OF h, of 4100 packages_fs "[]", folded seps_def]
  have "''/p/good-one'' \<noteq> []
   \<and> basename (normpath (''/p/good-one'' @ replicate 2 SEP)) = ''good-one''
   \<and> fsencode_length (path_join (''/p/good-one'' @ replicate 2 SEP) ''references'') < PATH_MAX
   \<and> validate_skill packages_fs [] (''/p/good-one'' @ replicate 2 SEP)
       = validate_skill packages_fs [] ''/p/good-one''
   \<and> validator_main packages_fs [] (''/p/good-one'' @ replicate 2 SEP)
       = validator_main packages_fs [] ''/p/good-one''
   \<and> PATH_MAX \<le> fsencode_length (''/p/good-one'' @ seps)
   \<and> basename (normpath (''/p/good-one'' @ seps)) = ''good-one''
   \<and> validate_skill packages_fs [] (''/p/good-one'' @ seps)
       = Inr \<lparr>errors = [MSG_MISSING_ENTRY], warnings = [MSG_NO_REFERENCES, MSG_NO_SCRIPTS]\<rparr>"
    using short long b l n nr by simp
  then show ?thesis unfolding seps_def .
qed

text \<open>
  The claim as stated fails at the empty path: \<^verbatim>\<open>normpath\<close> turns it into \<^verbatim>\<open>.\<close>,
  and with a separator added it is the root, whose base name is empty; the two runs
  print different first lines. It also fails for a path that the separators make too
  long: \<^verbatim>\<open>/p/good-one\<close> passes with exit code 0, and with 4100 separators added the
  run ends with exit code 1.
\<close>

theorem trailing_separators_counterexample:
  "basename (normpath ([] @ [SEP])) \<noteq> basename (normpath [])
   \<and> validator_main packages_fs [''p'', ''good-one''] ([] @ [SEP])
       \<noteq> validator_main packages_fs [''p'', ''good-one''] []
   \<and> exit_code (validator_main packages_fs [] ''/p/good-one'') = 0
   \<and> exit_code (validator_main packages_fs [] (''/p/good-one'' @ replicate 4100 SEP)) = 1"
proof -
  define seps where "seps = replicate 4100 SEP"
  have e: "basename (normpath ([] @ [SEP])) \<noteq> basename (normpath [])
   \<and> validator_main packages_fs [''p'', ''good-one''] ([] @ [SEP])
       \<noteq> validator_main packages_fs [''p'', ''good-one''] []
   \<and> exit_code (validator_main packages_fs [] ''/p/good-one'') = 0"
    by code_simp
  have "fsencode_length ''/p/good-one'' = 11" by code_simp
  then have "PATH_MAX \<le> fsencode_length (''/p/good-one'' @ seps)"
    unfolding seps_def fsencode_length_append fsencode_length_separators
    by (simp add: PATH_MAX_def)
  then have "exit_code (validator_main packages_fs [] (''/p/good-one'' @ seps)) = 1"
    by (simp add: validator_main_def validate_skill_overlong final_report_def)
  then show ?thesis using e unfolding seps_def by blast
qed

end
